theory Spec2Isabelle
  imports Main "HOL-Library.AList" "HOL-Library.Sublist"
begin

section \<open>Exceptions and characters\<close>

text \<open>
  The Python exceptions that \<^verbatim>\<open>backend_cli.py\<close> and the functions it calls can raise.
  \<^verbatim>\<open>KeyboardInterrupt\<close> and \<^verbatim>\<open>SystemExit\<close> are the two that are not subclasses of
  \<^verbatim>\<open>Exception\<close>, so that \<^verbatim>\<open>except Exception\<close> does not catch them. A function that can
  raise returns \<open>error + 'a\<close>, with \<open>Inl\<close> for the exception.
  Strings are lists of 8-bit characters: a character stands for the code point of the same
  number, so texts in the range U+0000..U+00FF are covered.
\<close>

datatype error =
  IndexError | KeyError | ValueError | TypeError | RuntimeError | AttributeError | OSError
  | KeyboardInterrupt | SystemExit

definition is_Exception :: "error \<Rightarrow> bool" where
  "is_Exception e = (e \<noteq> KeyboardInterrupt \<and> e \<noteq> SystemExit)"

definition dquote :: char where
  "dquote = CHR 0x22"

definition squote :: char where
  "squote = CHR 0x27"

definition backslash :: char where
  "backslash = CHR 0x5C"

definition space :: char where
  "space = CHR 0x20"

definition newline :: char where
  "newline = CHR 0x0A"

section \<open>The command table\<close>

text \<open>
  \<^verbatim>\<open>kFunctionInfoMap\<close>: per command name, the admissible numbers of parameters, whether a
  profile name follows the parameters, whether the command modifies the filter, and, for the
  commands that do, how many leading parameters identify the customization
  (\<^verbatim>\<open>NumParamsForMatch\<close>; the key is absent from the other entries, here \<open>None\<close>).
\<close>

record function_info =
  NumParamsOptions :: "nat list"
  HasProfileParam :: bool
  ModifiesFilter :: bool
  NumParamsForMatch :: "nat option"

definition info :: "nat list \<Rightarrow> bool \<Rightarrow> bool \<Rightarrow> nat option \<Rightarrow> function_info" where
  "info opts prof modifies nmatch =
     \<lparr>NumParamsOptions = opts, HasProfileParam = prof, ModifiesFilter = modifies,
      NumParamsForMatch = nmatch\<rparr>"

definition kFunctionInfoMap :: "(string \<times> function_info) list" where
  "kFunctionInfoMap =
    [(''is_first_launch'', info [0] False False None),
     (''get_all_profile_names'', info [0] False False None),
     (''create_new_profile'', info [1] False False None),
     (''rename_profile'', info [2] False False None),
     (''delete_profile'', info [1] False False None),
     (''set_active_profile'', info [1] False False None),
     (''check_filters_exist'', info [0] True False None),
     (''import_downloaded_filter'', info [0] True False None),
     (''load_input_filter'', info [0] True False None),
     (''run_batch'', info [0] True False None),
     (''get_rule_matching_item'', info [0] True False None),
     (''set_rule_visibility'', info [3] True True (Some 2)),
     (''set_currency_to_tier'', info [2] True True (Some 1)),
     (''get_tier_of_currency'', info [1] True False None),
     (''get_all_currency_tiers'', info [0] True False None),
     (''set_currency_tier_min_visible_stack_size'', info [2] True True (Some 1)),
     (''get_currency_tier_min_visible_stack_size'', info [1] True False None),
     (''get_all_essence_tier_visibilities'', info [0] True False None),
     (''set_hide_essences_above_tier'', info [1] True True (Some 0)),
     (''get_hide_essences_above_tier'', info [0] True False None),
     (''get_all_div_card_tier_visibilities'', info [0] True False None),
     (''set_hide_div_cards_above_tier'', info [1] True True (Some 0)),
     (''get_hide_div_cards_above_tier'', info [0] True False None),
     (''get_all_unique_item_tier_visibilities'', info [0] True False None),
     (''set_hide_unique_items_above_tier'', info [1] True True (Some 0)),
     (''get_hide_unique_items_above_tier'', info [0] True False None),
     (''get_all_unique_map_tier_visibilities'', info [0] True False None),
     (''set_hide_unique_maps_above_tier'', info [1] True True (Some 0)),
     (''get_hide_unique_maps_above_tier'', info [0] True False None),
     (''set_lowest_visible_oil'', info [1] True True (Some 0)),
     (''get_lowest_visible_oil'', info [0] True False None),
     (''set_gem_min_quality'', info [1] True True (Some 0)),
     (''get_gem_min_quality'', info [0] True False None),
     (''set_flask_min_quality'', info [1] True True (Some 0)),
     (''get_flask_min_quality'', info [0] True False None),
     (''set_hide_maps_below_tier'', info [1] True True (Some 0)),
     (''get_hide_maps_below_tier'', info [0] True False None),
     (''set_basetype_visibility'', info [2, 3] True True (Some 2)),
     (''get_basetype_visibility'', info [1] True False None),
     (''get_all_visible_basetypes'', info [0] True False None),
     (''set_flask_visibility'', info [2, 3] True True (Some 2)),
     (''get_flask_visibility'', info [1] True False None),
     (''get_all_visible_flasks'', info [0] True False None),
     (''add_remove_socket_rule'', info [2, 3] True True (Some 2)),
     (''get_all_added_socket_rules'', info [0] True False None),
     (''set_rgb_item_max_size'', info [1] True True (Some 0)),
     (''get_rgb_item_max_size'', info [0] True False None),
     (''set_chaos_recipe_enabled_for'', info [2] True True (Some 1)),
     (''is_chaos_recipe_enabled_for'', info [1] True False None),
     (''get_all_chaos_recipe_statuses'', info [0] True False None)]"

text \<open>
  \<^verbatim>\<open>kFunctionInfoMap[function_name]['NumParamsForMatch']\<close>: a \<^verbatim>\<open>KeyError\<close> when the name is
  not in the table, and when its entry has no \<^verbatim>\<open>NumParamsForMatch\<close>.
\<close>

definition lookup_NumParamsForMatch :: "string \<Rightarrow> error + nat" where
  "lookup_NumParamsForMatch function_name =
     (case map_of kFunctionInfoMap function_name of
        None \<Rightarrow> Inl KeyError
      | Some fi \<Rightarrow> (case NumParamsForMatch fi of None \<Rightarrow> Inl KeyError | Some k \<Rightarrow> Inr k))"

definition lookup_ModifiesFilter :: "string \<Rightarrow> error + bool" where
  "lookup_ModifiesFilter function_name =
     (case map_of kFunctionInfoMap function_name of
        None \<Rightarrow> Inl KeyError
      | Some fi \<Rightarrow> Inr (ModifiesFilter fi))"

section \<open>Quoting and tokenizing\<close>

text \<open>
  \<^verbatim>\<open>QuoteStringIfRequired\<close> and \<^verbatim>\<open>JoinParams\<close>, as in the source.
\<close>

definition QuoteStringIfRequired :: "string \<Rightarrow> string" where
  "QuoteStringIfRequired input_string =
     (if space \<in> set input_string \<or> squote \<in> set input_string
      then [dquote] @ input_string @ [dquote]
      else input_string)"

fun join :: "string \<Rightarrow> string list \<Rightarrow> string" where
  "join sep [] = []"
| "join sep [x] = x"
| "join sep (x # y # ys) = x @ sep @ join sep (y # ys)"

definition JoinParams :: "string list \<Rightarrow> string" where
  "JoinParams params_list = join [space] (map QuoteStringIfRequired params_list)"

text \<open>
  \<^verbatim>\<open>shlex.split(s)\<close> of the Python standard library, as the source calls it: POSIX mode,
  \<^verbatim>\<open>whitespace_split\<close> set, no comment characters, no punctuation characters. The lexer of
  \<^verbatim>\<open>shlex.read_token\<close> is a state machine over the characters; its states are
  \<^verbatim>\<open>' '\<close> (between tokens), \<^verbatim>\<open>'a'\<close> (in a word), a quote character (inside quotes) and the
  escape character (after a backslash, remembering the state to return to:
  \<open>None\<close> for \<^verbatim>\<open>'a'\<close>, \<open>Some q\<close> for the quote \<open>q\<close>). The function carries the token read so
  far and the flag \<^verbatim>\<open>quoted\<close>; an unclosed quotation and a trailing backslash raise
  \<^verbatim>\<open>ValueError\<close>.
\<close>

datatype shlex_state = InWhitespace | InWord | InQuotes char | InEscape "char option"

definition shlex_whitespace :: "char set" where
  "shlex_whitespace = {space, CHR 0x09, CHR 0x0D, CHR 0x0A}"

definition shlex_quotes :: "char set" where
  "shlex_quotes = {squote, dquote}"

definition emit :: "string \<Rightarrow> bool \<Rightarrow> string list" where
  "emit tok quoted = (if tok = [] \<and> \<not> quoted then [] else [tok])"

definition cons_token :: "string \<Rightarrow> error + string list \<Rightarrow> error + string list" where
  "cons_token tok r = (case r of Inl e \<Rightarrow> Inl e | Inr toks \<Rightarrow> Inr (tok # toks))"

fun read_token :: "shlex_state \<Rightarrow> string \<Rightarrow> bool \<Rightarrow> string \<Rightarrow> error + string list" where
  "read_token InWhitespace tok quoted [] = Inr (emit tok quoted)"
| "read_token InWhitespace tok quoted (c # cs) =
     (if c \<in> shlex_whitespace then
        (if tok \<noteq> [] \<or> quoted then cons_token tok (read_token InWhitespace [] False cs)
         else read_token InWhitespace tok quoted cs)
      else if c = backslash then read_token (InEscape None) tok quoted cs
      else if c \<in> shlex_quotes then read_token (InQuotes c) tok quoted cs
      else read_token InWord [c] quoted cs)"
| "read_token (InQuotes q) tok quoted [] = Inl ValueError"
| "read_token (InQuotes q) tok quoted (c # cs) =
     (if c = q then read_token InWord tok True cs
      else if c = backslash \<and> q = dquote then read_token (InEscape (Some q)) tok True cs
      else read_token (InQuotes q) (tok @ [c]) True cs)"
| "read_token (InEscape esc) tok quoted [] = Inl ValueError"
| "read_token (InEscape esc) tok quoted (c # cs) =
     (case esc of
        None \<Rightarrow> read_token InWord (tok @ [c]) quoted cs
      | Some q \<Rightarrow>
          read_token (InQuotes q)
            ((if c \<noteq> backslash \<and> c \<noteq> q then tok @ [backslash] else tok) @ [c]) quoted cs)"
| "read_token InWord tok quoted [] = Inr (emit tok quoted)"
| "read_token InWord tok quoted (c # cs) =
     (if c \<in> shlex_whitespace then
        (if tok \<noteq> [] \<or> quoted then cons_token tok (read_token InWhitespace [] False cs)
         else read_token InWhitespace tok quoted cs)
      else if c \<in> shlex_quotes then read_token (InQuotes c) tok quoted cs
      else if c = backslash then read_token (InEscape None) tok quoted cs
      else read_token InWord (tok @ [c]) quoted cs)"

definition shlex_split :: "string \<Rightarrow> error + string list" where
  "shlex_split s = read_token InWhitespace [] False s"

text \<open>
  \<^verbatim>\<open>str.strip()\<close>: the characters Python counts as white space, in the modelled range.
\<close>

definition py_isspace :: "char \<Rightarrow> bool" where
  "py_isspace c =
     (c \<in> {CHR 0x09, CHR 0x0A, CHR 0x0B, CHR 0x0C, CHR 0x0D, CHR 0x1C, CHR 0x1D, CHR 0x1E,
            CHR 0x1F, CHR 0x20, CHR 0x85, CHR 0xA0})"

definition strip :: "string \<Rightarrow> string" where
  "strip s = rev (dropWhile py_isspace (rev (dropWhile py_isspace s)))"

section \<open>The change log as a chain of ordered dictionaries\<close>

text \<open>
  \<^verbatim>\<open>changes_dict\<close> is an \<^verbatim>\<open>OrderedDict\<close> whose values are again ordered dictionaries or, at
  the end of a chain, the string of the last parameter. An ordered dictionary is its list of
  items in iteration order; \<open>od_set\<close> is the assignment \<^verbatim>\<open>d[k] = v\<close>: an existing key keeps
  its place, a new key goes to the end.
\<close>

datatype changes_dict = LastParam string | OrderedDict "(string \<times> changes_dict) list"

primrec od_set :: "('k \<times> 'v) list \<Rightarrow> 'k \<Rightarrow> 'v \<Rightarrow> ('k \<times> 'v) list" where
  "od_set [] k v = [(k, v)]"
| "od_set (item # items) k v =
     (if fst item = k then (k, v) # items else item # od_set items k v)"

text \<open>
  The loop of \<^verbatim>\<open>AddFunctionToChangesDict\<close>, from index \<open>i\<close> on: the first argument is
  \<^verbatim>\<open>num_params_for_match - i\<close>, the second the tokens from index \<open>i\<close>, the third
  \<^verbatim>\<open>current_dict\<close>. Reading a token beyond the list raises \<^verbatim>\<open>IndexError\<close>; indexing or
  assigning into a string where a dictionary is expected raises \<^verbatim>\<open>TypeError\<close>. The right-hand
  side \<^verbatim>\<open>function_tokens[i + 1]\<close> is evaluated before the assignment. The result is the
  dictionary after the in-place updates; an exception leaves the function, and the caller
  drops the dictionary with it. \<^verbatim>\<open>CheckType\<close> (module \<^verbatim>\<open>type_checker\<close>, not among the
  sources) asserts the Python types of the arguments; the types of the model enforce them,
  but for a \<open>changes_dict\<close> that is a string where the source demands an
  \<^verbatim>\<open>OrderedDict\<close>: that check is written out, its exception taken to be \<^verbatim>\<open>TypeError\<close>.
\<close>

fun AddFunctionToChangesDict_loop ::
  "nat \<Rightarrow> string list \<Rightarrow> changes_dict \<Rightarrow> error + changes_dict" where
  "AddFunctionToChangesDict_loop n [] current_dict = Inl IndexError"
| "AddFunctionToChangesDict_loop 0 (current_token # rest) current_dict =
     (case rest of
        [] \<Rightarrow> Inl IndexError
      | last_param # _ \<Rightarrow>
          (case current_dict of
             LastParam _ \<Rightarrow> Inl TypeError
           | OrderedDict items \<Rightarrow> Inr (OrderedDict (od_set items current_token (LastParam last_param)))))"
| "AddFunctionToChangesDict_loop (Suc n) (current_token # rest) current_dict =
     (case current_dict of
        LastParam _ \<Rightarrow> Inl TypeError
      | OrderedDict items \<Rightarrow>
          (case AddFunctionToChangesDict_loop n rest
                  (case map_of items current_token of
                     None \<Rightarrow> OrderedDict []
                   | Some subdict \<Rightarrow> subdict) of
             Inl e \<Rightarrow> Inl e
           | Inr subdict' \<Rightarrow> Inr (OrderedDict (od_set items current_token subdict'))))"

definition AddFunctionToChangesDict :: "string list \<Rightarrow> changes_dict \<Rightarrow> error + changes_dict" where
  "AddFunctionToChangesDict function_tokens changes =
     (case changes of
        LastParam _ \<Rightarrow> Inl TypeError
      | OrderedDict _ \<Rightarrow>
          (case function_tokens of
             [] \<Rightarrow> Inl IndexError
           | function_name # _ \<Rightarrow>
               (case lookup_NumParamsForMatch function_name of
                  Inl e \<Rightarrow> Inl e
                | Inr num_params_for_match \<Rightarrow>
                    AddFunctionToChangesDict_loop num_params_for_match function_tokens changes)))"

text \<open>
  \<^verbatim>\<open>ConvertChangesDictToFunctionListRec\<close>: the lists of tokens of a dictionary, depth first,
  each dictionary's items in iteration order.
\<close>

fun ConvertChangesDictToFunctionListRec :: "changes_dict \<Rightarrow> string list \<Rightarrow> string list list" where
  "ConvertChangesDictToFunctionListRec (LastParam last_param) current_prefix_list =
     [current_prefix_list @ [last_param]]"
| "ConvertChangesDictToFunctionListRec (OrderedDict items) current_prefix_list =
     concat (map (\<lambda>(param, subdict).
        ConvertChangesDictToFunctionListRec subdict (current_prefix_list @ [param])) items)"

definition ConvertChangesDictToFunctionList :: "changes_dict \<Rightarrow> error + string list" where
  "ConvertChangesDictToFunctionList changes =
     (case changes of
        LastParam _ \<Rightarrow> Inl TypeError
      | OrderedDict _ \<Rightarrow> Inr (map JoinParams (ConvertChangesDictToFunctionListRec changes [])))"

section \<open>Updating the change-log file\<close>

text \<open>
  \<^verbatim>\<open>UpdateProfileChangesFile\<close>. The file is the list of its lines, as
  \<^verbatim>\<open>file_helper.ReadFile\<close> returns them and \<^verbatim>\<open>file_helper.WriteToFile\<close> writes them (module
  \<^verbatim>\<open>file_helper\<close> is not among the sources; reading and writing are taken to succeed).
  \<open>parse_changes\<close> is the loop over the lines of the file.
\<close>

fun parse_changes :: "string list \<Rightarrow> changes_dict \<Rightarrow> error + changes_dict" where
  "parse_changes [] parsed_changes_dict = Inr parsed_changes_dict"
| "parse_changes (line # changes_lines_list) parsed_changes_dict =
     (case shlex_split (strip line) of
        Inl e \<Rightarrow> Inl e
      | Inr tokens_list \<Rightarrow>
          (case AddFunctionToChangesDict tokens_list parsed_changes_dict of
             Inl e \<Rightarrow> Inl e
           | Inr parsed_changes_dict' \<Rightarrow> parse_changes changes_lines_list parsed_changes_dict'))"

text \<open>
  The search for a matching function in \<^verbatim>\<open>parsed_changes_dict\<close>. Its result
  \<^verbatim>\<open>matched_rule_tokens_list\<close> is never read; the model keeps the control flow, the flag
  \<^verbatim>\<open>match_flag\<close> and the exceptions. On a string, \<^verbatim>\<open>in\<close> is the substring test and
  indexing by a string raises \<^verbatim>\<open>TypeError\<close>.
\<close>

fun match_loop :: "nat \<Rightarrow> string list \<Rightarrow> changes_dict \<Rightarrow> error + bool" where
  "match_loop 0 new_function_params current_dict = Inr True"
| "match_loop (Suc n) [] current_dict = Inl IndexError"
| "match_loop (Suc n) (current_param # rest) current_dict =
     (case current_dict of
        LastParam s \<Rightarrow> (if sublist current_param s then Inl TypeError else Inr False)
      | OrderedDict items \<Rightarrow>
          (case map_of items current_param of
             None \<Rightarrow> Inr False
           | Some subdict \<Rightarrow> match_loop n rest subdict))"

definition find_match :: "string \<Rightarrow> string list \<Rightarrow> nat \<Rightarrow> changes_dict \<Rightarrow> error + bool" where
  "find_match new_function_name new_function_params num_params_for_match parsed_changes_dict =
     (case parsed_changes_dict of
        LastParam s \<Rightarrow> (if sublist new_function_name s then Inl TypeError else Inr False)
      | OrderedDict items \<Rightarrow>
          (case map_of items new_function_name of
             None \<Rightarrow> Inr False
           | Some current_dict \<Rightarrow> match_loop num_params_for_match new_function_params current_dict))"

text \<open>
  The result is the exception raised, if any, and the lines of the file afterwards. The
  file is written by the last statement only.
\<close>

definition UpdateProfileChangesFile ::
  "string list \<Rightarrow> string \<Rightarrow> string list \<Rightarrow> error option \<times> string list" where
  "UpdateProfileChangesFile changes_file new_function_name new_function_params =
     (case parse_changes changes_file (OrderedDict []) of
        Inl e \<Rightarrow> (Some e, changes_file)
      | Inr parsed_changes_dict \<Rightarrow>
     (case lookup_NumParamsForMatch new_function_name of
        Inl e \<Rightarrow> (Some e, changes_file)
      | Inr num_params_for_match \<Rightarrow>
     (case find_match new_function_name new_function_params num_params_for_match
             parsed_changes_dict of
        Inl e \<Rightarrow> (Some e, changes_file)
      | Inr match_flag \<Rightarrow>
     (case AddFunctionToChangesDict (new_function_name # new_function_params)
             parsed_changes_dict of
        Inl e \<Rightarrow> (Some e, changes_file)
      | Inr parsed_changes_dict' \<Rightarrow>
     (case ConvertChangesDictToFunctionList parsed_changes_dict' of
        Inl e \<Rightarrow> (Some e, changes_file)
      | Inr changes_list \<Rightarrow> (None, changes_list))))))"

section \<open>Numbers and strings of the dispatcher\<close>

text \<open>
  \<^verbatim>\<open>int(s)\<close> on a string: white space around the number is dropped, a sign may precede
  the digits, single underscores may stand between digits; anything else raises
  \<^verbatim>\<open>ValueError\<close>. (The interpreter's limit on the number of digits is left out.)
  \<^verbatim>\<open>str(n)\<close> is the decimal numeral.
\<close>

definition is_digit :: "char \<Rightarrow> bool" where
  "is_digit c = (48 \<le> (of_char c :: nat) \<and> (of_char c :: nat) \<le> 57)"

fun parse_digits :: "bool \<Rightarrow> nat \<Rightarrow> string \<Rightarrow> nat option" where
  "parse_digits after_digit acc [] = (if after_digit then Some acc else None)"
| "parse_digits after_digit acc (c # cs) =
     (if is_digit c then parse_digits True (10 * acc + (of_char c - 48)) cs
      else if c = CHR ''_'' \<and> after_digit then parse_digits False acc cs
      else None)"

definition py_int :: "string \<Rightarrow> error + int" where
  "py_int s =
     (case strip s of
        [] \<Rightarrow> Inl ValueError
      | c # cs \<Rightarrow>
          if c = CHR ''-'' then
            (case parse_digits False 0 cs of None \<Rightarrow> Inl ValueError | Some n \<Rightarrow> Inr (- int n))
          else if c = CHR ''+'' then
            (case parse_digits False 0 cs of None \<Rightarrow> Inl ValueError | Some n \<Rightarrow> Inr (int n))
          else
            (case parse_digits False 0 (c # cs) of
               None \<Rightarrow> Inl ValueError
             | Some n \<Rightarrow> Inr (int n)))"

function str_nat :: "nat \<Rightarrow> string" where
  "str_nat n =
     (if n < 10 then [char_of (48 + n)] else str_nat (n div 10) @ [char_of (48 + n mod 10)])"
  by pat_completeness auto
termination
  by (relation "measure id") auto

definition str_bool :: "bool \<Rightarrow> string" where
  "str_bool b = (if b then ''1'' else ''0'')"

definition str_opt :: "string option \<Rightarrow> string" where
  "str_opt x = (case x of None \<Rightarrow> ''None'' | Some s \<Rightarrow> s)"

definition bind :: "error + 'a \<Rightarrow> ('a \<Rightarrow> error + 'b) \<Rightarrow> error + 'b" where
  "bind m f = (case m of Inl e \<Rightarrow> Inl e | Inr x \<Rightarrow> f x)"

text \<open>
  \<^verbatim>\<open>CheckNumParams\<close> raises through \<^verbatim>\<open>Error\<close>, a \<^verbatim>\<open>RuntimeError\<close>.
\<close>

definition CheckNumParams :: "string list \<Rightarrow> nat \<Rightarrow> error + unit" where
  "CheckNumParams params_list required_num_params =
     (if length params_list \<noteq> required_num_params then Inl RuntimeError else Inr ())"

text \<open>
  The removal of the final newline: most branches index \<^verbatim>\<open>output_string[-1]\<close> at once,
  an \<^verbatim>\<open>IndexError\<close> on the empty string; two branches test the length first.
\<close>

definition remove_final_newline :: "string \<Rightarrow> error + string" where
  "remove_final_newline output_string =
     (if output_string = [] then Inl IndexError
      else Inr (if last output_string = newline then butlast output_string else output_string))"

definition remove_final_newline_guarded :: "string \<Rightarrow> string" where
  "remove_final_newline_guarded output_string =
     (if length output_string > 0 \<and> last output_string = newline
      then butlast output_string else output_string)"

section \<open>The collaborators of the dispatcher\<close>

text \<open>
  The modules \<^verbatim>\<open>loot_filter\<close>, \<^verbatim>\<open>loot_filter_rule\<close>, \<^verbatim>\<open>profile\<close>, \<^verbatim>\<open>consts\<close> and
  \<^verbatim>\<open>file_helper\<close> are not among the sources. Their functions and constants are parameters
  of the model, collected in a record: \<open>'f\<close> is the state of a \<^verbatim>\<open>LootFilter\<close> object, \<open>'p\<close>
  the profiles on disk. Every call may raise. The methods of \<^verbatim>\<open>LootFilter\<close> are grouped by
  what the dispatcher does with their result: the mutators (\<open>lf_set\<close>), the getters whose
  result is only printed (\<open>lf_str\<close>, the result being the printed string), and the getters
  of a visibility, a flag and a list of names. Getters are taken not to change the filter.
\<close>

datatype RuleVisibility = kShow | kHide | kDisabledAny

datatype InputFilterSource = kDownload | kInput | kOutput

datatype lf_setter =
    RuleSetVisibility string string RuleVisibility
  | SetCurrencyToTier string int
  | SetCurrencyTierMinVisibleStackSize string string
  | SetHideEssencesAboveTierTier int
  | SetHideDivCardsAboveTierTier int
  | SetHideUniqueItemsAboveTierTier int
  | SetHideUniqueMapsAboveTierTier int
  | SetLowestVisibleOil string
  | SetGemMinQuality int
  | SetFlaskMinQuality int
  | SetHideMapsBelowTierTier int
  | SetBaseTypeRuleEnabledFor string bool bool
  | SetFlaskRuleEnabledFor string bool bool
  | AddSocketRule string string
  | RemoveSocketRule string string
  | SetRgbItemMaxSize string
  | SetChaosRecipeEnabledFor string bool

datatype lf_str_getter =
    GetTierOfCurrency string
  | GetCurrencyTierMinVisibleStackSize string
  | GetHideEssencesAboveTierTier
  | GetHideDivCardsAboveTierTier
  | GetHideUniqueItemsAboveTierTier
  | GetHideUniqueMapsAboveTierTier
  | GetLowestVisibleOil
  | GetGemMinQuality
  | GetFlaskMinQuality
  | GetHideMapsBelowTierTier
  | GetRgbItemMaxSize

datatype lf_vis_getter =
    GetEssenceTierVisibility nat
  | GetDivCardTierVisibility nat
  | GetUniqueItemTierVisibility nat
  | GetUniqueMapTierVisibility nat

datatype lf_bool_getter =
    IsBaseTypeRuleEnabledFor string bool
  | IsFlaskRuleEnabledFor string bool
  | IsChaosRecipeEnabledFor string

datatype lf_list_getter =
    GetAllCurrencyInTier nat
  | GetAllVisibleBaseTypes bool
  | GetAllVisibleFlaskTypes bool

record ('f, 'p) collaborators =
  lf_set :: "lf_setter \<Rightarrow> 'f \<Rightarrow> error + 'f"
  lf_str :: "lf_str_getter \<Rightarrow> 'f \<Rightarrow> error + string"
  lf_vis :: "lf_vis_getter \<Rightarrow> 'f \<Rightarrow> error + RuleVisibility"
  lf_bool :: "lf_bool_getter \<Rightarrow> 'f \<Rightarrow> error + bool"
  lf_list :: "lf_list_getter \<Rightarrow> 'f \<Rightarrow> error + string list"
  GetAllAddedSocketRules :: "'f \<Rightarrow> error + (string \<times> string) list"
  GetRuleMatchingItem :: "string list \<Rightarrow> 'f \<Rightarrow> error + (string option \<times> string option)"
  GetRule :: "string \<Rightarrow> string \<Rightarrow> 'f \<Rightarrow> error + string list"
  filters_exist :: "'f \<Rightarrow> error + (bool \<times> bool \<times> bool)"
  LootFilter :: "string \<Rightarrow> InputFilterSource \<Rightarrow> 'p \<Rightarrow> error + 'f"
  set_order :: "string list \<Rightarrow> string list"
  kNumCurrencyTiersExcludingScrolls :: nat
  kNumEssenceTiers :: nat
  kNumDivCardTiers :: nat
  kNumUniqueItemTiers :: nat
  kNumUniqueMapTiers :: nat
  kItemSlots :: "string list"
  GetAllProfileNames :: "'p \<Rightarrow> error + string list"
  CreateNewProfile :: "string \<Rightarrow> string list \<Rightarrow> 'p \<Rightarrow> error + (bool \<times> 'p)"
  RenameProfile :: "string \<Rightarrow> string \<Rightarrow> 'p \<Rightarrow> error + 'p"
  DeleteProfile :: "string \<Rightarrow> 'p \<Rightarrow> error + 'p"
  SetActiveProfile :: "string \<Rightarrow> 'p \<Rightarrow> error + 'p"
  ProfileExists :: "string \<Rightarrow> 'p \<Rightarrow> bool"

section \<open>The branches of the dispatcher\<close>

text \<open>
  A branch of \<^verbatim>\<open>DelegateFunctionCall\<close> works on the filter object (\<open>None\<close> when the command
  has no profile), the profiles and the lines of \<^verbatim>\<open>backend_cli.input\<close>. It returns the
  filter and the profiles afterwards, \<^verbatim>\<open>output_string\<close>, and \<^verbatim>\<open>function_params\<close> as the
  branch leaves it (three branches add a default parameter in place). A method called on
  \<^verbatim>\<open>None\<close> raises \<^verbatim>\<open>AttributeError\<close>, a subscript of \<^verbatim>\<open>None\<close> \<^verbatim>\<open>TypeError\<close>.
\<close>

type_synonym ('f, 'p) branch_result = "error + ('f option \<times> 'p \<times> string \<times> string list)"

definition with_filter :: "'f option \<Rightarrow> ('f \<Rightarrow> error + 'a) \<Rightarrow> error + 'a" where
  "with_filter loot_filter f = (case loot_filter of None \<Rightarrow> Inl AttributeError | Some lf \<Rightarrow> f lf)"

definition call_setter ::
  "('f, 'p) collaborators \<Rightarrow> 'f option \<Rightarrow> 'p \<Rightarrow> string list \<Rightarrow> lf_setter \<Rightarrow> ('f, 'p) branch_result" where
  "call_setter env loot_filter prof function_params call =
     with_filter loot_filter (\<lambda>lf.
       bind (lf_set env call lf) (\<lambda>lf'. Inr (Some lf', prof, [], function_params)))"

definition call_str_getter ::
  "('f, 'p) collaborators \<Rightarrow> 'f option \<Rightarrow> 'p \<Rightarrow> string list \<Rightarrow> lf_str_getter \<Rightarrow> ('f, 'p) branch_result" where
  "call_str_getter env loot_filter prof function_params call =
     with_filter loot_filter (\<lambda>lf.
       bind (lf_str env call lf) (\<lambda>out. Inr (loot_filter, prof, out, function_params)))"

text \<open>The setters of one integer: \<^verbatim>\<open>CheckNumParams\<close>, \<^verbatim>\<open>int\<close>, the call.\<close>

definition set_int_branch ::
  "('f, 'p) collaborators \<Rightarrow> 'f option \<Rightarrow> 'p \<Rightarrow> string list \<Rightarrow> (int \<Rightarrow> lf_setter) \<Rightarrow>
   ('f, 'p) branch_result" where
  "set_int_branch env loot_filter prof function_params setter =
     bind (CheckNumParams function_params 1) (\<lambda>_.
     bind (py_int (function_params ! 0)) (\<lambda>v.
     call_setter env loot_filter prof function_params (setter v)))"

definition get_str_branch ::
  "('f, 'p) collaborators \<Rightarrow> 'f option \<Rightarrow> 'p \<Rightarrow> string list \<Rightarrow> lf_str_getter \<Rightarrow>
   ('f, 'p) branch_result" where
  "get_str_branch env loot_filter prof function_params getter =
     bind (CheckNumParams function_params 0) (\<lambda>_.
     call_str_getter env loot_filter prof function_params getter)"

text \<open>
  The loops that print one line per tier, \<^verbatim>\<open>range(1, n + 1)\<close>, and per item slot.
\<close>

fun tier_visibilities_loop ::
  "('f, 'p) collaborators \<Rightarrow> 'f \<Rightarrow> (nat \<Rightarrow> lf_vis_getter) \<Rightarrow> nat list \<Rightarrow> string \<Rightarrow> error + string" where
  "tier_visibilities_loop env lf getter [] output_string = Inr output_string"
| "tier_visibilities_loop env lf getter (tier # tiers) output_string =
     bind (lf_vis env (getter tier) lf) (\<lambda>v.
     tier_visibilities_loop env lf getter tiers
       (output_string @ str_nat tier @ '';'' @ str_bool (v = kShow) @ [newline]))"

definition tier_visibilities_branch ::
  "('f, 'p) collaborators \<Rightarrow> 'f option \<Rightarrow> 'p \<Rightarrow> string list \<Rightarrow> (nat \<Rightarrow> lf_vis_getter) \<Rightarrow> nat \<Rightarrow>
   ('f, 'p) branch_result" where
  "tier_visibilities_branch env loot_filter prof function_params getter num_tiers =
     bind (CheckNumParams function_params 0) (\<lambda>_.
     bind (if num_tiers = 0 then Inr []
           else with_filter loot_filter (\<lambda>lf.
             tier_visibilities_loop env lf getter [1..<Suc num_tiers] [])) (\<lambda>output_string.
     bind (remove_final_newline output_string) (\<lambda>out.
     Inr (loot_filter, prof, out, function_params))))"

definition currency_tier_lines :: "nat \<Rightarrow> string list \<Rightarrow> string" where
  "currency_tier_lines tier currency_names =
     concat (map (\<lambda>currency_name. currency_name @ '';'' @ str_nat tier @ [newline])
       currency_names)"

fun currency_tiers_loop ::
  "('f, 'p) collaborators \<Rightarrow> 'f \<Rightarrow> nat list \<Rightarrow> string \<Rightarrow> error + string" where
  "currency_tiers_loop env lf [] output_string = Inr output_string"
| "currency_tiers_loop env lf (tier # tiers) output_string =
     bind (lf_list env (GetAllCurrencyInTier tier) lf) (\<lambda>currency_names.
     currency_tiers_loop env lf tiers
       (output_string @ currency_tier_lines tier currency_names))"

definition get_all_currency_tiers ::
  "('f, 'p) collaborators \<Rightarrow> 'f option \<Rightarrow> 'p \<Rightarrow> string list \<Rightarrow> ('f, 'p) branch_result" where
  "get_all_currency_tiers env loot_filter prof function_params =
     bind (CheckNumParams function_params 0) (\<lambda>_.
     bind (if kNumCurrencyTiersExcludingScrolls env = 0 then Inr []
           else with_filter loot_filter (\<lambda>lf.
             currency_tiers_loop env lf [1..<Suc (kNumCurrencyTiersExcludingScrolls env)] []))
       (\<lambda>output_string.
     bind (remove_final_newline output_string) (\<lambda>out.
     Inr (loot_filter, prof, out, function_params))))"

fun chaos_recipe_loop ::
  "('f, 'p) collaborators \<Rightarrow> 'f \<Rightarrow> string list \<Rightarrow> string \<Rightarrow> error + string" where
  "chaos_recipe_loop env lf [] output_string = Inr output_string"
| "chaos_recipe_loop env lf (item_slot # item_slots) output_string =
     bind (lf_bool env (IsChaosRecipeEnabledFor item_slot) lf) (\<lambda>flag.
     chaos_recipe_loop env lf item_slots
       (output_string @ item_slot @ '';'' @ str_bool flag @ [newline]))"

definition get_all_chaos_recipe_statuses ::
  "('f, 'p) collaborators \<Rightarrow> 'f option \<Rightarrow> 'p \<Rightarrow> string list \<Rightarrow> ('f, 'p) branch_result" where
  "get_all_chaos_recipe_statuses env loot_filter prof function_params =
     bind (CheckNumParams function_params 0) (\<lambda>_.
     bind (if kItemSlots env = [] then Inr []
           else with_filter loot_filter (\<lambda>lf. chaos_recipe_loop env lf (kItemSlots env) []))
       (\<lambda>output_string.
     bind (remove_final_newline output_string) (\<lambda>out.
     Inr (loot_filter, prof, out, function_params))))"

text \<open>
  \<^verbatim>\<open>get_all_visible_basetypes\<close> and \<^verbatim>\<open>get_all_visible_flasks\<close>.
  \<^verbatim>\<open>list(set(rare) - set(any))\<close> lists a set in the order of its hash table; \<open>set_order\<close>
  stands for that order.
\<close>

definition get_all_visible_basetypes ::
  "('f, 'p) collaborators \<Rightarrow> 'f option \<Rightarrow> 'p \<Rightarrow> string list \<Rightarrow> ('f, 'p) branch_result" where
  "get_all_visible_basetypes env loot_filter prof function_params =
     bind (CheckNumParams function_params 0) (\<lambda>_.
     with_filter loot_filter (\<lambda>lf.
     bind (lf_list env (GetAllVisibleBaseTypes False) lf) (\<lambda>visible_base_types_any.
     bind (lf_list env (GetAllVisibleBaseTypes True) lf) (\<lambda>visible_base_types_rare.
     let visible_base_types_rare_only =
           set_order env (filter (\<lambda>b. b \<notin> set visible_base_types_any) visible_base_types_rare);
         output_string =
           concat (map (\<lambda>base_type. base_type @ '';0'' @ [newline]) visible_base_types_any) @
           concat (map (\<lambda>base_type. base_type @ '';1'' @ [newline]) visible_base_types_rare_only)
     in Inr (loot_filter, prof, remove_final_newline_guarded output_string, function_params)))))"

definition get_all_visible_flasks ::
  "('f, 'p) collaborators \<Rightarrow> 'f option \<Rightarrow> 'p \<Rightarrow> string list \<Rightarrow> ('f, 'p) branch_result" where
  "get_all_visible_flasks env loot_filter prof function_params =
     bind (CheckNumParams function_params 0) (\<lambda>_.
     with_filter loot_filter (\<lambda>lf.
     bind (lf_list env (GetAllVisibleFlaskTypes False) lf) (\<lambda>visible_flask_types_any_ilvl.
     bind (lf_list env (GetAllVisibleFlaskTypes True) lf) (\<lambda>visible_flask_types_high_ilvl.
     let output_string =
           concat (map (\<lambda>flask_base_type. flask_base_type @ '';0'' @ [newline])
             visible_flask_types_any_ilvl) @
           concat (map (\<lambda>flask_base_type. flask_base_type @ '';1'' @ [newline])
             visible_flask_types_high_ilvl)
     in Inr (loot_filter, prof, remove_final_newline_guarded output_string, function_params)))))"

text \<open>The remaining branches, in the order of the source.\<close>

definition check_filters_exist ::
  "('f, 'p) collaborators \<Rightarrow> 'f option \<Rightarrow> 'p \<Rightarrow> string list \<Rightarrow> ('f, 'p) branch_result" where
  "check_filters_exist env loot_filter prof function_params =
     bind (CheckNumParams function_params 0) (\<lambda>_.
     case loot_filter of
       None \<Rightarrow> Inl TypeError
     | Some lf \<Rightarrow>
         bind (filters_exist env lf)
           (\<lambda>(downloaded_filter_exists, input_filter_exists, output_filter_exists).
         Inr (loot_filter, prof,
              join [newline] [str_bool downloaded_filter_exists, str_bool input_filter_exists,
                              str_bool output_filter_exists],
              function_params)))"

definition profile_branches ::
  "('f, 'p) collaborators \<Rightarrow> string \<Rightarrow> string list \<Rightarrow> 'f option \<Rightarrow> 'p \<Rightarrow> string list \<Rightarrow>
   ('f, 'p) branch_result" where
  "profile_branches env function_name function_params loot_filter prof input_lines =
     (if function_name = ''is_first_launch'' then
        bind (CheckNumParams function_params 0) (\<lambda>_.
        bind (GetAllProfileNames env prof) (\<lambda>profile_names_list.
        Inr (loot_filter, prof, str_bool (length profile_names_list = 0), function_params)))
      else if function_name = ''get_all_profile_names'' then
        bind (CheckNumParams function_params 0) (\<lambda>_.
        bind (GetAllProfileNames env prof) (\<lambda>profile_names_list.
        Inr (loot_filter, prof, join [newline] profile_names_list, function_params)))
      else if function_name = ''create_new_profile'' then
        bind (CheckNumParams function_params 1) (\<lambda>_.
        bind (CreateNewProfile env (function_params ! 0) input_lines prof)
          (\<lambda>(created_profile, prof').
        Inr (loot_filter, prof', str_bool created_profile, function_params)))
      else if function_name = ''rename_profile'' then
        bind (CheckNumParams function_params 2) (\<lambda>_.
        bind (RenameProfile env (function_params ! 0) (function_params ! 1) prof) (\<lambda>prof'.
        Inr (loot_filter, prof', [], function_params)))
      else if function_name = ''delete_profile'' then
        bind (CheckNumParams function_params 1) (\<lambda>_.
        bind (DeleteProfile env (function_params ! 0) prof) (\<lambda>prof'.
        Inr (loot_filter, prof', [], function_params)))
      else
        bind (CheckNumParams function_params 1) (\<lambda>_.
        bind (SetActiveProfile env (function_params ! 0) prof) (\<lambda>prof'.
        Inr (loot_filter, prof', [], function_params))))"

definition get_rule_matching_item ::
  "('f, 'p) collaborators \<Rightarrow> 'f option \<Rightarrow> 'p \<Rightarrow> string list \<Rightarrow> string list \<Rightarrow>
   ('f, 'p) branch_result" where
  "get_rule_matching_item env loot_filter prof function_params item_text_lines =
     bind (CheckNumParams function_params 0) (\<lambda>_.
     with_filter loot_filter (\<lambda>lf.
     bind (GetRuleMatchingItem env item_text_lines lf) (\<lambda>(type_tag, tier_tag).
     let output_string =
           ''type_tag:'' @ str_opt type_tag @ [newline] @ ''tier_tag:'' @ str_opt tier_tag @
           [newline]
     in case (type_tag, tier_tag) of
          (Some ty, Some ti) \<Rightarrow>
            bind (GetRule env ty ti lf) (\<lambda>text_lines.
            Inr (loot_filter, prof, output_string @ join [newline] text_lines, function_params))
        | _ \<Rightarrow> Inr (loot_filter, prof, output_string, function_params))))"

text \<open>
  \<^verbatim>\<open>set_rule_visibility\<close>: \<^verbatim>\<open>loot_filter.GetRule(...)\<close> is evaluated before the argument
  \<^verbatim>\<open>visibility_map[visibility_string]\<close>, whose missing key raises \<^verbatim>\<open>KeyError\<close>.
\<close>

definition visibility_map :: "string \<Rightarrow> error + RuleVisibility" where
  "visibility_map visibility_string =
     (if visibility_string = ''show'' then Inr kShow
      else if visibility_string = ''hide'' then Inr kHide
      else if visibility_string = ''disable'' then Inr kDisabledAny
      else Inl KeyError)"

definition set_rule_visibility ::
  "('f, 'p) collaborators \<Rightarrow> 'f option \<Rightarrow> 'p \<Rightarrow> string list \<Rightarrow> ('f, 'p) branch_result" where
  "set_rule_visibility env loot_filter prof function_params =
     bind (CheckNumParams function_params 3) (\<lambda>_.
     with_filter loot_filter (\<lambda>lf.
     bind (GetRule env (function_params ! 0) (function_params ! 1) lf) (\<lambda>_.
     bind (visibility_map (function_params ! 2)) (\<lambda>visibility.
     call_setter env loot_filter prof function_params
       (RuleSetVisibility (function_params ! 0) (function_params ! 1) visibility)))))"

definition set_currency_to_tier ::
  "('f, 'p) collaborators \<Rightarrow> 'f option \<Rightarrow> 'p \<Rightarrow> string list \<Rightarrow> ('f, 'p) branch_result" where
  "set_currency_to_tier env loot_filter prof function_params =
     bind (CheckNumParams function_params 2) (\<lambda>_.
     bind (py_int (function_params ! 1)) (\<lambda>target_tier.
     call_setter env loot_filter prof function_params
       (SetCurrencyToTier (function_params ! 0) target_tier)))"

text \<open>
  \<^verbatim>\<open>set_basetype_visibility\<close> and \<^verbatim>\<open>set_flask_visibility\<close> append the default \<^verbatim>\<open>'0'\<close> to
  two parameters; \<^verbatim>\<open>add_remove_socket_rule\<close> inserts \<^verbatim>\<open>'any'\<close> at index 1.
  \<^verbatim>\<open>bool(int(s))\<close> is true for a number other than zero.
\<close>

definition append_default :: "string list \<Rightarrow> string list" where
  "append_default function_params =
     (if length function_params = 2 then function_params @ [''0''] else function_params)"

definition insert_default :: "string list \<Rightarrow> string list" where
  "insert_default function_params =
     (if length function_params = 2
      then [function_params ! 0, ''any'', function_params ! 1] else function_params)"

definition py_bool_int :: "string \<Rightarrow> error + bool" where
  "py_bool_int s = bind (py_int s) (\<lambda>i. Inr (i \<noteq> 0))"

definition set_two_flags_branch ::
  "('f, 'p) collaborators \<Rightarrow> 'f option \<Rightarrow> 'p \<Rightarrow> string list \<Rightarrow>
   (string \<Rightarrow> bool \<Rightarrow> bool \<Rightarrow> lf_setter) \<Rightarrow> ('f, 'p) branch_result" where
  "set_two_flags_branch env loot_filter prof function_params0 setter =
     (let function_params = append_default function_params0 in
      bind (CheckNumParams function_params 3) (\<lambda>_.
      bind (py_bool_int (function_params ! 1)) (\<lambda>enable_flag.
      bind (py_bool_int (function_params ! 2)) (\<lambda>second_flag.
      call_setter env loot_filter prof function_params
        (setter (function_params ! 0) enable_flag second_flag)))))"

definition get_two_flags_branch ::
  "('f, 'p) collaborators \<Rightarrow> 'f option \<Rightarrow> 'p \<Rightarrow> string list \<Rightarrow>
   (string \<Rightarrow> bool \<Rightarrow> lf_bool_getter) \<Rightarrow> ('f, 'p) branch_result" where
  "get_two_flags_branch env loot_filter prof function_params getter =
     bind (CheckNumParams function_params 1) (\<lambda>_.
     with_filter loot_filter (\<lambda>lf.
     bind (lf_bool env (getter (function_params ! 0) False) lf) (\<lambda>any_visibility_flag.
     bind (lf_bool env (getter (function_params ! 0) True) lf) (\<lambda>narrow_visibility_flag.
     Inr (loot_filter, prof,
          str_bool any_visibility_flag @ '' '' @ str_bool narrow_visibility_flag,
          function_params)))))"

definition add_remove_socket_rule ::
  "('f, 'p) collaborators \<Rightarrow> 'f option \<Rightarrow> 'p \<Rightarrow> string list \<Rightarrow> ('f, 'p) branch_result" where
  "add_remove_socket_rule env loot_filter prof function_params0 =
     (let function_params = insert_default function_params0 in
      bind (CheckNumParams function_params 3) (\<lambda>_.
      bind (py_bool_int (function_params ! 2)) (\<lambda>add_flag.
      call_setter env loot_filter prof function_params
        (if add_flag then AddSocketRule (function_params ! 0) (function_params ! 1)
         else RemoveSocketRule (function_params ! 0) (function_params ! 1)))))"

definition get_all_added_socket_rules ::
  "('f, 'p) collaborators \<Rightarrow> 'f option \<Rightarrow> 'p \<Rightarrow> string list \<Rightarrow> ('f, 'p) branch_result" where
  "get_all_added_socket_rules env loot_filter prof function_params =
     bind (CheckNumParams function_params 0) (\<lambda>_.
     with_filter loot_filter (\<lambda>lf.
     bind (GetAllAddedSocketRules env lf) (\<lambda>rules.
     Inr (loot_filter, prof,
          join [newline] (map (\<lambda>(socket_string, item_slot). socket_string @ '';'' @ item_slot) rules),
          function_params))))"

definition set_chaos_recipe_enabled_for ::
  "('f, 'p) collaborators \<Rightarrow> 'f option \<Rightarrow> 'p \<Rightarrow> string list \<Rightarrow> ('f, 'p) branch_result" where
  "set_chaos_recipe_enabled_for env loot_filter prof function_params =
     bind (CheckNumParams function_params 2) (\<lambda>_.
     bind (py_bool_int (function_params ! 1)) (\<lambda>enable_flag.
     call_setter env loot_filter prof function_params
       (SetChaosRecipeEnabledFor (function_params ! 0) enable_flag)))"

definition is_chaos_recipe_enabled_for ::
  "('f, 'p) collaborators \<Rightarrow> 'f option \<Rightarrow> 'p \<Rightarrow> string list \<Rightarrow> ('f, 'p) branch_result" where
  "is_chaos_recipe_enabled_for env loot_filter prof function_params =
     bind (CheckNumParams function_params 1) (\<lambda>_.
     with_filter loot_filter (\<lambda>lf.
     bind (lf_bool env (IsChaosRecipeEnabledFor (function_params ! 0)) lf) (\<lambda>flag.
     Inr (loot_filter, prof, str_bool flag, function_params))))"

definition set_str_branch ::
  "('f, 'p) collaborators \<Rightarrow> 'f option \<Rightarrow> 'p \<Rightarrow> string list \<Rightarrow> (string \<Rightarrow> lf_setter) \<Rightarrow>
   ('f, 'p) branch_result" where
  "set_str_branch env loot_filter prof function_params setter =
     bind (CheckNumParams function_params 1) (\<lambda>_.
     call_setter env loot_filter prof function_params (setter (function_params ! 0)))"

definition get_str_of_branch ::
  "('f, 'p) collaborators \<Rightarrow> 'f option \<Rightarrow> 'p \<Rightarrow> string list \<Rightarrow> (string \<Rightarrow> lf_str_getter) \<Rightarrow>
   ('f, 'p) branch_result" where
  "get_str_of_branch env loot_filter prof function_params getter =
     bind (CheckNumParams function_params 1) (\<lambda>_.
     call_str_getter env loot_filter prof function_params (getter (function_params ! 0)))"

definition set_currency_tier_min_visible_stack_size ::
  "('f, 'p) collaborators \<Rightarrow> 'f option \<Rightarrow> 'p \<Rightarrow> string list \<Rightarrow> ('f, 'p) branch_result" where
  "set_currency_tier_min_visible_stack_size env loot_filter prof function_params =
     bind (CheckNumParams function_params 2) (\<lambda>_.
     call_setter env loot_filter prof function_params
       (SetCurrencyTierMinVisibleStackSize (function_params ! 0) (function_params ! 1)))"

text \<open>
  The \<^verbatim>\<open>if\<close>/\<^verbatim>\<open>elif\<close> chain of \<^verbatim>\<open>DelegateFunctionCall\<close> without its two branches that
  call \<^verbatim>\<open>DelegateFunctionCall\<close> again (import and batch, below). The last \<^verbatim>\<open>else\<close> raises
  \<^verbatim>\<open>RuntimeError\<close>: command not supported.
\<close>

definition DelegateFunctionCall_branch ::
  "('f, 'p) collaborators \<Rightarrow> string \<Rightarrow> string list \<Rightarrow> 'f option \<Rightarrow> 'p \<Rightarrow> string list \<Rightarrow>
   ('f, 'p) branch_result" where
  "DelegateFunctionCall_branch env function_name function_params loot_filter prof input_lines =
     (if function_name = ''check_filters_exist'' then
        check_filters_exist env loot_filter prof function_params
      else if function_name \<in> {''is_first_launch'', ''get_all_profile_names'',
          ''create_new_profile'', ''rename_profile'', ''delete_profile'', ''set_active_profile''} then
        profile_branches env function_name function_params loot_filter prof input_lines
      else if function_name = ''get_rule_matching_item'' then
        get_rule_matching_item env loot_filter prof function_params input_lines
      else if function_name = ''set_rule_visibility'' then
        set_rule_visibility env loot_filter prof function_params
      else if function_name = ''set_currency_to_tier'' then
        set_currency_to_tier env loot_filter prof function_params
      else if function_name = ''get_tier_of_currency'' then
        get_str_of_branch env loot_filter prof function_params GetTierOfCurrency
      else if function_name = ''get_all_currency_tiers'' then
        get_all_currency_tiers env loot_filter prof function_params
      else if function_name = ''set_currency_tier_min_visible_stack_size'' then
        set_currency_tier_min_visible_stack_size env loot_filter prof function_params
      else if function_name = ''get_currency_tier_min_visible_stack_size'' then
        get_str_of_branch env loot_filter prof function_params GetCurrencyTierMinVisibleStackSize
      else if function_name = ''get_all_essence_tier_visibilities'' then
        tier_visibilities_branch env loot_filter prof function_params GetEssenceTierVisibility
          (kNumEssenceTiers env)
      else if function_name = ''set_hide_essences_above_tier'' then
        set_int_branch env loot_filter prof function_params SetHideEssencesAboveTierTier
      else if function_name = ''get_hide_essences_above_tier'' then
        get_str_branch env loot_filter prof function_params GetHideEssencesAboveTierTier
      else if function_name = ''get_all_div_card_tier_visibilities'' then
        tier_visibilities_branch env loot_filter prof function_params GetDivCardTierVisibility
          (kNumDivCardTiers env)
      else if function_name = ''set_hide_div_cards_above_tier'' then
        set_int_branch env loot_filter prof function_params SetHideDivCardsAboveTierTier
      else if function_name = ''get_hide_div_cards_above_tier'' then
        get_str_branch env loot_filter prof function_params GetHideDivCardsAboveTierTier
      else if function_name = ''get_all_unique_item_tier_visibilities'' then
        tier_visibilities_branch env loot_filter prof function_params GetUniqueItemTierVisibility
          (kNumUniqueItemTiers env)
      else if function_name = ''set_hide_unique_items_above_tier'' then
        set_int_branch env loot_filter prof function_params SetHideUniqueItemsAboveTierTier
      else if function_name = ''get_hide_unique_items_above_tier'' then
        get_str_branch env loot_filter prof function_params GetHideUniqueItemsAboveTierTier
      else if function_name = ''get_all_unique_map_tier_visibilities'' then
        tier_visibilities_branch env loot_filter prof function_params GetUniqueMapTierVisibility
          (kNumUniqueMapTiers env)
      else if function_name = ''set_hide_unique_maps_above_tier'' then
        set_int_branch env loot_filter prof function_params SetHideUniqueMapsAboveTierTier
      else if function_name = ''get_hide_unique_maps_above_tier'' then
        get_str_branch env loot_filter prof function_params GetHideUniqueMapsAboveTierTier
      else if function_name = ''set_lowest_visible_oil'' then
        set_str_branch env loot_filter prof function_params SetLowestVisibleOil
      else if function_name = ''get_lowest_visible_oil'' then
        get_str_branch env loot_filter prof function_params GetLowestVisibleOil
      else if function_name = ''set_gem_min_quality'' then
        set_int_branch env loot_filter prof function_params SetGemMinQuality
      else if function_name = ''get_gem_min_quality'' then
        get_str_branch env loot_filter prof function_params GetGemMinQuality
      else if function_name = ''set_flask_min_quality'' then
        set_int_branch env loot_filter prof function_params SetFlaskMinQuality
      else if function_name = ''get_flask_min_quality'' then
        get_str_branch env loot_filter prof function_params GetFlaskMinQuality
      else if function_name = ''set_hide_maps_below_tier'' then
        set_int_branch env loot_filter prof function_params SetHideMapsBelowTierTier
      else if function_name = ''get_hide_maps_below_tier'' then
        get_str_branch env loot_filter prof function_params GetHideMapsBelowTierTier
      else if function_name = ''set_basetype_visibility'' then
        set_two_flags_branch env loot_filter prof function_params SetBaseTypeRuleEnabledFor
      else if function_name = ''get_basetype_visibility'' then
        get_two_flags_branch env loot_filter prof function_params IsBaseTypeRuleEnabledFor
      else if function_name = ''get_all_visible_basetypes'' then
        get_all_visible_basetypes env loot_filter prof function_params
      else if function_name = ''set_flask_visibility'' then
        set_two_flags_branch env loot_filter prof function_params SetFlaskRuleEnabledFor
      else if function_name = ''get_flask_visibility'' then
        get_two_flags_branch env loot_filter prof function_params IsFlaskRuleEnabledFor
      else if function_name = ''get_all_visible_flasks'' then
        get_all_visible_flasks env loot_filter prof function_params
      else if function_name = ''add_remove_socket_rule'' then
        add_remove_socket_rule env loot_filter prof function_params
      else if function_name = ''get_all_added_socket_rules'' then
        get_all_added_socket_rules env loot_filter prof function_params
      else if function_name = ''set_rgb_item_max_size'' then
        set_str_branch env loot_filter prof function_params SetRgbItemMaxSize
      else if function_name = ''get_rgb_item_max_size'' then
        get_str_branch env loot_filter prof function_params GetRgbItemMaxSize
      else if function_name = ''set_chaos_recipe_enabled_for'' then
        set_chaos_recipe_enabled_for env loot_filter prof function_params
      else if function_name = ''is_chaos_recipe_enabled_for'' then
        is_chaos_recipe_enabled_for env loot_filter prof function_params
      else if function_name = ''get_all_chaos_recipe_statuses'' then
        get_all_chaos_recipe_statuses env loot_filter prof function_params
      else Inl RuntimeError)"

section \<open>The dispatcher and its effects\<close>

text \<open>
  What \<^verbatim>\<open>DelegateFunctionCall\<close> reads and writes: the filter object, the profiles, the files
  \<^verbatim>\<open>backend_cli.output\<close> and \<^verbatim>\<open>backend_cli.input\<close>, the change log of the profile, and the
  filters that \<^verbatim>\<open>SaveToFile\<close> has written, one entry per call, in order. A call returns the
  exception it raised, if any, and the state it leaves. Writing a file and \<^verbatim>\<open>SaveToFile\<close>
  are taken to succeed.
\<close>

record ('f, 'p) world =
  loot_filter :: "'f option"
  profiles :: 'p
  output_file :: string
  input_file :: "string list"
  changes_file :: "string list"
  saved_filters :: "'f list"

type_synonym ('f, 'p) outcome = "error option \<times> ('f, 'p) world"

definition SaveToFile :: "('f, 'p) world \<Rightarrow> ('f, 'p) outcome" where
  "SaveToFile w =
     (case loot_filter w of
        None \<Rightarrow> (Some AttributeError, w)
      | Some lf \<Rightarrow> (None, w\<lparr>saved_filters := saved_filters w @ [lf]\<rparr>))"

definition WriteOutput :: "string \<Rightarrow> ('f, 'p) world \<Rightarrow> ('f, 'p) world" where
  "WriteOutput output_string w = w\<lparr>output_file := output_string\<rparr>"

definition AppendFunctionOutput :: "string \<Rightarrow> ('f, 'p) world \<Rightarrow> ('f, 'p) world" where
  "AppendFunctionOutput function_output_string w =
     w\<lparr>output_file := output_file w @ function_output_string @ [newline] @ ''@'' @ [newline]\<rparr>"

text \<open>
  The end of \<^verbatim>\<open>DelegateFunctionCall\<close>, after the branches: the output, the save of a
  command that is not in a batch, and the record of a mutator in the change log.
  \<^verbatim>\<open>config_values\<close> is \<^verbatim>\<open>None\<close> without a filter, and its subscript raises \<^verbatim>\<open>TypeError\<close>.
\<close>

definition record_change ::
  "string \<Rightarrow> string list \<Rightarrow> ('f, 'p) world \<Rightarrow> ('f, 'p) outcome" where
  "record_change function_name function_params w =
     (case loot_filter w of
        None \<Rightarrow> (Some TypeError, w)
      | Some _ \<Rightarrow>
          (case UpdateProfileChangesFile (changes_file w) function_name function_params of
             (e, changes_file') \<Rightarrow> (e, w\<lparr>changes_file := changes_file'\<rparr>)))"

definition DelegateFunctionCall_end ::
  "bool \<Rightarrow> bool \<Rightarrow> string \<Rightarrow> string list \<Rightarrow> string \<Rightarrow> ('f, 'p) world \<Rightarrow> ('f, 'p) outcome" where
  "DelegateFunctionCall_end in_batch suppress_output function_name function_params output_string w =
     (case lookup_ModifiesFilter function_name of
        Inl e \<Rightarrow>
          (Some e,
           if in_batch then (if suppress_output then w else AppendFunctionOutput output_string w)
           else (if function_name \<noteq> ''run_batch'' then WriteOutput output_string w else w))
      | Inr modifies \<Rightarrow>
          (case (if in_batch then
                   (None, if suppress_output then w else AppendFunctionOutput output_string w)
                 else
                   (let w1 = (if function_name \<noteq> ''run_batch'' then WriteOutput output_string w
                              else w)
                    in if modifies then SaveToFile w1 else (None, w1))) of
             (Some e, w2) \<Rightarrow> (Some e, w2)
           | (None, w2) \<Rightarrow>
               if modifies \<and> \<not> suppress_output then record_change function_name function_params w2
               else (None, w2)))"

text \<open>
  \<^verbatim>\<open>DelegateFunctionCall\<close> calls itself with \<^verbatim>\<open>in_batch = True\<close> only, and a call with
  \<^verbatim>\<open>in_batch = True\<close> takes neither the import nor the batch branch: the recursion is one
  level deep. \<open>DelegateFunctionCall_in_batch\<close> is the function at \<^verbatim>\<open>in_batch = True\<close>.
\<close>

definition DelegateFunctionCall_in_batch ::
  "('f, 'p) collaborators \<Rightarrow> bool \<Rightarrow> string \<Rightarrow> string list \<Rightarrow> ('f, 'p) world \<Rightarrow> ('f, 'p) outcome" where
  "DelegateFunctionCall_in_batch env suppress_output function_name function_params w =
     (case DelegateFunctionCall_branch env function_name function_params
             (loot_filter w) (profiles w) (input_file w) of
        Inl e \<Rightarrow> (Some e, w)
      | Inr (loot_filter', profiles', output_string, function_params') \<Rightarrow>
          DelegateFunctionCall_end True suppress_output function_name function_params'
            output_string (w\<lparr>loot_filter := loot_filter', profiles := profiles'\<rparr>))"

text \<open>
  The loop of the import branch over the lines of the change log.
  \<^verbatim>\<open>_function_name, *_function_params = shlex.split(...)\<close> raises \<^verbatim>\<open>ValueError\<close> when there
  is no token.
\<close>

fun apply_changes ::
  "('f, 'p) collaborators \<Rightarrow> string list \<Rightarrow> ('f, 'p) world \<Rightarrow> ('f, 'p) outcome" where
  "apply_changes env [] w = (None, w)"
| "apply_changes env (function_call_string # changes_lines) w =
     (case shlex_split function_call_string of
        Inl e \<Rightarrow> (Some e, w)
      | Inr [] \<Rightarrow> (Some ValueError, w)
      | Inr (function_name # function_params) \<Rightarrow>
          (case DelegateFunctionCall_in_batch env True function_name function_params w of
             (Some e, w') \<Rightarrow> (Some e, w')
           | (None, w') \<Rightarrow> apply_changes env changes_lines w'))"

text \<open>
  The loop of the batch branch over the lines of \<^verbatim>\<open>backend_cli.input\<close>, with the flag
  \<^verbatim>\<open>contains_mutator\<close>.
\<close>

fun run_batch_loop ::
  "('f, 'p) collaborators \<Rightarrow> string list \<Rightarrow> bool \<Rightarrow> ('f, 'p) world \<Rightarrow>
   error option \<times> bool \<times> ('f, 'p) world" where
  "run_batch_loop env [] contains_mutator w = (None, contains_mutator, w)"
| "run_batch_loop env (function_call_string # function_call_list) contains_mutator w =
     (if strip function_call_string = [] then
        run_batch_loop env function_call_list contains_mutator w
      else
        (case shlex_split function_call_string of
           Inl e \<Rightarrow> (Some e, contains_mutator, w)
         | Inr [] \<Rightarrow> (Some ValueError, contains_mutator, w)
         | Inr (function_name # function_params) \<Rightarrow>
             (case lookup_ModifiesFilter function_name of
                Inl e \<Rightarrow> (Some e, contains_mutator, w)
              | Inr modifies \<Rightarrow>
                  (case DelegateFunctionCall_in_batch env False function_name function_params w of
                     (Some e, w') \<Rightarrow> (Some e, contains_mutator \<or> modifies, w')
                   | (None, w') \<Rightarrow>
                       run_batch_loop env function_call_list (contains_mutator \<or> modifies) w'))))"

definition import_branch ::
  "('f, 'p) collaborators \<Rightarrow> string list \<Rightarrow> ('f, 'p) world \<Rightarrow> ('f, 'p) outcome" where
  "import_branch env function_params w =
     (case CheckNumParams function_params 0 of
        Inl e \<Rightarrow> (Some e, w)
      | Inr _ \<Rightarrow>
          (case loot_filter w of
             None \<Rightarrow> (Some TypeError, w)
           | Some _ \<Rightarrow>
               (case apply_changes env (changes_file w) w of
                  (Some e, w') \<Rightarrow> (Some e, w')
                | (None, w') \<Rightarrow> SaveToFile w')))"

definition run_batch_branch ::
  "('f, 'p) collaborators \<Rightarrow> string list \<Rightarrow> ('f, 'p) world \<Rightarrow> ('f, 'p) outcome" where
  "run_batch_branch env function_params w =
     (case CheckNumParams function_params 0 of
        Inl e \<Rightarrow> (Some e, w)
      | Inr _ \<Rightarrow>
          (let w0 = WriteOutput [] w in
           case run_batch_loop env (input_file w0) False w0 of
             (Some e, contains_mutator, w') \<Rightarrow> (Some e, w')
           | (None, contains_mutator, w') \<Rightarrow>
               if contains_mutator then SaveToFile w' else (None, w')))"

definition DelegateFunctionCall ::
  "('f, 'p) collaborators \<Rightarrow> bool \<Rightarrow> bool \<Rightarrow> string \<Rightarrow> string list \<Rightarrow> ('f, 'p) world \<Rightarrow>
   ('f, 'p) outcome" where
  "DelegateFunctionCall env in_batch suppress_output function_name function_params w =
     (if in_batch then
        DelegateFunctionCall_in_batch env suppress_output function_name function_params w
      else if function_name = ''check_filters_exist'' then
        (case DelegateFunctionCall_branch env function_name function_params
                (loot_filter w) (profiles w) (input_file w) of
           Inl e \<Rightarrow> (Some e, w)
         | Inr (loot_filter', profiles', output_string, function_params') \<Rightarrow>
             DelegateFunctionCall_end False suppress_output function_name function_params'
               output_string (w\<lparr>loot_filter := loot_filter', profiles := profiles'\<rparr>))
      else if function_name \<in> {''import_downloaded_filter'', ''load_input_filter''} then
        (case import_branch env function_params w of
           (Some e, w') \<Rightarrow> (Some e, w')
         | (None, w') \<Rightarrow>
             DelegateFunctionCall_end False suppress_output function_name function_params [] w')
      else if function_name = ''run_batch'' then
        (case run_batch_branch env function_params w of
           (Some e, w') \<Rightarrow> (Some e, w')
         | (None, w') \<Rightarrow>
             DelegateFunctionCall_end False suppress_output function_name function_params [] w')
      else
        (case DelegateFunctionCall_branch env function_name function_params
                (loot_filter w) (profiles w) (input_file w) of
           Inl e \<Rightarrow> (Some e, w)
         | Inr (loot_filter', profiles', output_string, function_params') \<Rightarrow>
             DelegateFunctionCall_end False suppress_output function_name function_params'
               output_string (w\<lparr>loot_filter := loot_filter', profiles := profiles'\<rparr>)))"

section \<open>The entry point\<close>

text \<open>
  \<^verbatim>\<open>main\<close> and \<^verbatim>\<open>main_impl\<close> write the exit-code file and the log, besides what the
  dispatcher does. The writes are kept in the order in which they happen, as a list of events:
  \<^verbatim>\<open>file_helper.WriteToFile(code, kExitCodeFilename)\<close>, \<^verbatim>\<open>logger.InitializeLog\<close> and
  \<^verbatim>\<open>logger.Log\<close>. A process is that list together with the state of the dispatcher.
  \<open>exit_codes\<close> lists the codes written, in order: the exit-code file holds the last one.
\<close>

datatype event = ExitCodeWritten string | LogInitialized string | Logged string

record ('f, 'p) process =
  trace :: "event list"
  state :: "('f, 'p) world"

fun exit_codes :: "event list \<Rightarrow> string list" where
  "exit_codes [] = []"
| "exit_codes (ExitCodeWritten code # evs) = code # exit_codes evs"
| "exit_codes (LogInitialized log_filename # evs) = exit_codes evs"
| "exit_codes (Logged message # evs) = exit_codes evs"

text \<open>
  The module \<^verbatim>\<open>logger\<close> is not among the sources, and \<^verbatim>\<open>traceback.format_exc()\<close> and
  \<^verbatim>\<open>str(sys.argv)\<close> are library functions whose text does not matter here: they are
  parameters. A call of the logger may raise, depending on its argument and on what happened
  before (\<open>Some\<close> the exception); writing the exit-code file is taken to succeed, like the
  other writes of files.
\<close>

record runtime =
  InitializeLog :: "string \<Rightarrow> event list \<Rightarrow> error option"
  Log :: "string \<Rightarrow> event list \<Rightarrow> error option"
  format_exc :: "error \<Rightarrow> string"
  str_argv :: "string list \<Rightarrow> string"

definition kLogFilename :: string where
  "kLogFilename = ''backend_cli.log''"

definition kUsageSyntaxString :: string where
  "kUsageSyntaxString =
     ''Usage synax:'' @ [newline] @
     ''> python backend_cli.py <function_name> <function_arguments...> <profile_name (if required)>''"

text \<open>
  \<^verbatim>\<open>Error(e)\<close> in the argument validation: it logs and raises \<^verbatim>\<open>RuntimeError\<close>, or raises
  what the logger raised. The result is the exception and the events so far.
\<close>

definition Error :: "runtime \<Rightarrow> string \<Rightarrow> event list \<Rightarrow> (error + 'a) \<times> event list" where
  "Error rt e tr =
     (case Log rt (''Error '' @ e) tr of
        Some logger_exception \<Rightarrow> (Inl logger_exception, tr)
      | None \<Rightarrow> (Inl RuntimeError, tr @ [Logged (''Error '' @ e)]))"

text \<open>
  \<^verbatim>\<open>ValidateAndParseArguments\<close> on \<^verbatim>\<open>sys.argv\<close>: the function name, its parameters and the
  profile name (\<open>None\<close> when the command has none). A name that is not in
  \<^verbatim>\<open>kFunctionInfoMap\<close> raises \<^verbatim>\<open>KeyError\<close>.
\<close>

definition ValidateAndParseArguments ::
  "runtime \<Rightarrow> ('f, 'p) collaborators \<Rightarrow> string list \<Rightarrow> 'p \<Rightarrow> event list \<Rightarrow>
   (error + (string \<times> string list \<times> string option)) \<times> event list" where
  "ValidateAndParseArguments rt env argv prof tr =
     (case argv of
        [] \<Rightarrow> Error rt (''No function specified'' @ [newline] @ kUsageSyntaxString) tr
      | [_] \<Rightarrow> Error rt (''No function specified'' @ [newline] @ kUsageSyntaxString) tr
      | _ # function_name # remaining_params \<Rightarrow>
          (case map_of kFunctionInfoMap function_name of
             None \<Rightarrow> (Inl KeyError, tr)
           | Some fi \<Rightarrow>
               if HasProfileParam fi \<and> remaining_params = [] then
                 Error rt (''No profile specified'' @ [newline] @ kUsageSyntaxString) tr
               else
                 (let function_params =
                        (if HasProfileParam fi then butlast remaining_params
                         else remaining_params);
                      profile_name =
                        (if HasProfileParam fi then Some (last remaining_params) else None)
                  in if length function_params \<notin> set (NumParamsOptions fi) then
                       Error rt (''Invalid number of parameters given ('' @
                                 str_nat (length function_params) @ '') for function '' @
                                 function_name @ [newline] @ kUsageSyntaxString) tr
                     else
                       (case profile_name of
                          None \<Rightarrow> (Inr (function_name, function_params, profile_name), tr)
                        | Some n \<Rightarrow>
                            if \<not> ProfileExists env n prof then
                              Error rt (''profile '' @ [dquote] @ n @ [dquote] @
                                        '' does not exist'' @ [newline] @ kUsageSyntaxString) tr
                            else (Inr (function_name, function_params, profile_name), tr)))))"

text \<open>
  \<^verbatim>\<open>main_impl\<close>, with its two local values: the source of the input filter, and the
  filter object, which is \<^verbatim>\<open>None\<close> without a profile name; an empty profile name counts as
  none (\<^verbatim>\<open>if profile_name\<close>). The dispatcher is the one of the sections above, where the
  lines that \<^verbatim>\<open>Error\<close> logs before it raises are left out.
\<close>

definition input_filter_source :: "string \<Rightarrow> InputFilterSource" where
  "input_filter_source function_name =
     (if function_name = ''import_downloaded_filter'' then kDownload
      else if function_name = ''load_input_filter'' then kInput
      else kOutput)"

definition construct_filter ::
  "('f, 'p) collaborators \<Rightarrow> string \<Rightarrow> string option \<Rightarrow> 'p \<Rightarrow> error + 'f option" where
  "construct_filter env function_name profile_name prof =
     (case profile_name of
        None \<Rightarrow> Inr None
      | Some n \<Rightarrow>
          if n = [] then Inr None
          else bind (LootFilter env n (input_filter_source function_name) prof)
                 (\<lambda>lf. Inr (Some lf)))"

definition main_impl ::
  "runtime \<Rightarrow> ('f, 'p) collaborators \<Rightarrow> string list \<Rightarrow> ('f, 'p) process \<Rightarrow>
   error option \<times> ('f, 'p) process" where
  "main_impl rt env argv p =
     (case InitializeLog rt kLogFilename (trace p) of
        Some e \<Rightarrow> (Some e, p)
      | None \<Rightarrow>
          (let p1 = p\<lparr>trace := trace p @ [LogInitialized kLogFilename]\<rparr>;
               argv_info_message = ''Info: sys.argv = '' @ str_argv rt argv
           in case Log rt argv_info_message (trace p1) of
                Some e \<Rightarrow> (Some e, p1)
              | None \<Rightarrow>
                  (let p2 = p1\<lparr>trace := trace p1 @ [Logged argv_info_message]\<rparr>
                   in case ValidateAndParseArguments rt env argv (profiles (state p2))
                             (trace p2) of
                        (Inl e, tr) \<Rightarrow> (Some e, p2\<lparr>trace := tr\<rparr>)
                      | (Inr (function_name, function_params, profile_name), tr) \<Rightarrow>
                          (case construct_filter env function_name profile_name
                                  (profiles (state p2)) of
                             Inl e \<Rightarrow> (Some e, p2\<lparr>trace := tr\<rparr>)
                           | Inr lf \<Rightarrow>
                               (case DelegateFunctionCall env False False function_name
                                       function_params ((state p2)\<lparr>loot_filter := lf\<rparr>) of
                                  (r, w) \<Rightarrow> (r, p2\<lparr>trace := tr, state := w\<rparr>))))))"

text \<open>
  \<^verbatim>\<open>main\<close>: the code -1 is written first; \<^verbatim>\<open>except Exception\<close> catches what
  \<^verbatim>\<open>main_impl\<close> raised unless it is \<^verbatim>\<open>KeyboardInterrupt\<close> or \<^verbatim>\<open>SystemExit\<close>; the handler
  logs the traceback, which may raise in its turn, then writes the code 1 and raises the
  exception again; after a return of \<^verbatim>\<open>main_impl\<close> the code 0 is written.
\<close>

definition main ::
  "runtime \<Rightarrow> ('f, 'p) collaborators \<Rightarrow> string list \<Rightarrow> ('f, 'p) process \<Rightarrow>
   error option \<times> ('f, 'p) process" where
  "main rt env argv p =
     (case main_impl rt env argv (p\<lparr>trace := trace p @ [ExitCodeWritten ''-1'']\<rparr>) of
        (Some e, p1) \<Rightarrow>
          if is_Exception e then
            (let traceback_message = format_exc rt e
             in case Log rt traceback_message (trace p1) of
                  Some logger_exception \<Rightarrow> (Some logger_exception, p1)
                | None \<Rightarrow>
                    (Some e, p1\<lparr>trace := trace p1 @ [Logged traceback_message,
                                                     ExitCodeWritten ''1'']\<rparr>))
          else (Some e, p1)
      | (None, p1) \<Rightarrow> (None, p1\<lparr>trace := trace p1 @ [ExitCodeWritten ''0'']\<rparr>))"

section \<open>Notions for the properties of the change log\<close>

text \<open>
  The lines that \<^verbatim>\<open>ConvertChangesDictToFunctionListRec\<close> lists for a dictionary, as lists
  of tokens, from the empty prefix.
\<close>

definition lines :: "changes_dict \<Rightarrow> string list list" where
  "lines d = ConvertChangesDictToFunctionListRec d []"

text \<open>
  A command well formed for \<^verbatim>\<open>AddFunctionToChangesDict\<close>: its name has a
  \<^verbatim>\<open>NumParamsForMatch\<close> \<open>k\<close> and it has the name, \<open>k\<close> parameters and one more token. Its
  key is the name with the first \<open>k\<close> parameters, its value the parameter after them.
\<close>

definition match_arity :: "string \<Rightarrow> nat" where
  "match_arity function_name =
     (case lookup_NumParamsForMatch function_name of Inl e \<Rightarrow> 0 | Inr k \<Rightarrow> k)"

definition cmd_key :: "string list \<Rightarrow> string list" where
  "cmd_key function_tokens = take (Suc (match_arity (hd function_tokens))) function_tokens"

definition cmd_value :: "string list \<Rightarrow> string" where
  "cmd_value function_tokens = function_tokens ! Suc (match_arity (hd function_tokens))"

definition well_formed :: "string list \<Rightarrow> bool" where
  "well_formed function_tokens =
     (case function_tokens of
        [] \<Rightarrow> False
      | function_name # _ \<Rightarrow>
          (case lookup_NumParamsForMatch function_name of
             Inl e \<Rightarrow> False
           | Inr k \<Rightarrow> k + 2 \<le> length function_tokens))"

text \<open>
  The shape of the dictionaries the function builds: below a command name with
  \<^verbatim>\<open>NumParamsForMatch\<close> \<open>k\<close> there are \<open>k\<close> levels of dictionaries with distinct keys, then
  the strings of the last parameters.
\<close>

fun shaped :: "nat \<Rightarrow> changes_dict \<Rightarrow> bool" where
  "shaped 0 (LastParam v) = True"
| "shaped (Suc n) (OrderedDict items) =
     (distinct (map fst items) \<and> list_all (\<lambda>item. shaped n (snd item)) items)"
| "shaped 0 (OrderedDict items) = False"
| "shaped (Suc n) (LastParam v) = False"

definition root_shaped :: "changes_dict \<Rightarrow> bool" where
  "root_shaped d =
     (case d of
        LastParam v \<Rightarrow> False
      | OrderedDict items \<Rightarrow>
          distinct (map fst items) \<and>
          list_all (\<lambda>item. case lookup_NumParamsForMatch (fst item) of
                              Inl e \<Rightarrow> False
                            | Inr k \<Rightarrow> shaped k (snd item)) items)"

text \<open>
  \<open>AddAll\<close> folds a sequence of commands into a dictionary, stopping at the first
  exception. \<open>final_value cmds key\<close> is the value of the last command of \<open>cmds\<close> with that
  key.
\<close>

fun AddAll :: "string list list \<Rightarrow> changes_dict \<Rightarrow> error + changes_dict" where
  "AddAll [] d = Inr d"
| "AddAll (function_tokens # rest) d =
     (case AddFunctionToChangesDict function_tokens d of
        Inl e \<Rightarrow> Inl e
      | Inr d' \<Rightarrow> AddAll rest d')"

definition final_value :: "string list list \<Rightarrow> string list \<Rightarrow> string" where
  "final_value cmds key = cmd_value (last (filter (\<lambda>c. cmd_key c = key) cmds))"

text \<open>
  \<open>keys_ok cmds ls\<close>: the lines \<open>ls\<close> have pairwise different keys, their keys are the keys
  of the commands, and each line carries the final value of its key.
\<close>

definition keys_ok :: "string list list \<Rightarrow> string list list \<Rightarrow> bool" where
  "keys_ok cmds ls =
     (distinct (map butlast ls) \<and> set (map butlast ls) = cmd_key ` set cmds \<and>
      list_all (\<lambda>l. l = butlast l @ [final_value cmds (butlast l)]) ls)"

text \<open>
  One call seen on the lines: the new line \<open>key @ [v]\<close> stands where the line of \<open>key\<close>
  stood, or is a line more when there was none; every other line stays, in its place.
\<close>

definition updated_lines ::
  "string list list \<Rightarrow> string list list \<Rightarrow> string list \<Rightarrow> string \<Rightarrow> bool" where
  "updated_lines before after key v =
     (\<exists>pre old post. before = pre @ old @ post \<and> after = pre @ [key @ [v]] @ post \<and>
        (old = [] \<or> (\<exists>v0. old = [key @ [v0]])) \<and> key \<notin> butlast ` set (pre @ post))"

text \<open>
  The dictionary at a path of tokens, and the keys of that dictionary in iteration order
  (none when the path leads nowhere or to a string).
\<close>

fun subdict_at :: "changes_dict \<Rightarrow> string list \<Rightarrow> changes_dict option" where
  "subdict_at d [] = Some d"
| "subdict_at (LastParam v) (t # p) = None"
| "subdict_at (OrderedDict items) (t # p) =
     (case map_of items t of None \<Rightarrow> None | Some subdict \<Rightarrow> subdict_at subdict p)"

definition children :: "changes_dict \<Rightarrow> string list \<Rightarrow> string list" where
  "children d p =
     (case subdict_at d p of
        Some (OrderedDict items) \<Rightarrow> map fst items
      | _ \<Rightarrow> [])"

text \<open>
  \<open>insertion_order xs\<close> lists the values of \<open>xs\<close> in the order of their first occurrence.
  \<open>extends p key\<close>: the path \<open>p\<close> is a proper beginning of \<open>key\<close>. \<open>next_tokens cmds p\<close>
  are the tokens that follow the path \<open>p\<close> in the keys of the commands, in the order of the
  commands.
\<close>

definition insertion_order :: "'a list \<Rightarrow> 'a list" where
  "insertion_order xs = fold (\<lambda>x seen. if x \<in> set seen then seen else seen @ [x]) xs []"

definition extends :: "string list \<Rightarrow> string list \<Rightarrow> bool" where
  "extends p key = (length p < length key \<and> take (length p) key = p)"

definition add_child :: "string list \<Rightarrow> string \<Rightarrow> string list" where
  "add_child ks t = (if t \<in> set ks then ks else ks @ [t])"

definition next_tokens :: "string list list \<Rightarrow> string list \<Rightarrow> string list" where
  "next_tokens cmds p = map (\<lambda>key. key ! length p) (filter (extends p) (map cmd_key cmds))"

definition updated_children ::
  "changes_dict \<Rightarrow> changes_dict \<Rightarrow> string list \<Rightarrow> bool" where
  "updated_children d d' key =
     (\<forall>p. children d' p =
        (if extends p key then add_child (children d p) (key ! length p) else children d p))"

text \<open>Auxiliary notions of the proofs.\<close>

definition child_or_empty :: "(string \<times> changes_dict) list \<Rightarrow> string \<Rightarrow> changes_dict" where
  "child_or_empty items t = (case map_of items t of None \<Rightarrow> OrderedDict [] | Some subdict \<Rightarrow> subdict)"

definition foreign :: "string \<Rightarrow> string list \<Rightarrow> bool" where
  "foreign t l = (\<exists>k l'. l = k # l' \<and> k \<noteq> t \<and> l' \<noteq> [])"

text \<open>
  The malformed lines of a change log: a line that the tokenizer refuses, a line whose
  command is not in \<^verbatim>\<open>kFunctionInfoMap\<close>, and a line with fewer tokens than the command
  name, its \<^verbatim>\<open>NumParamsForMatch\<close> parameters and the value (a line with no token at all
  among them).
\<close>

definition fails_to_tokenize :: "string \<Rightarrow> bool" where
  "fails_to_tokenize line = (case shlex_split (strip line) of Inl e \<Rightarrow> True | Inr tokens \<Rightarrow> False)"

definition names_unknown_command :: "string \<Rightarrow> bool" where
  "names_unknown_command line =
     (case shlex_split (strip line) of
        Inl e \<Rightarrow> False
      | Inr tokens \<Rightarrow>
          (case tokens of
             [] \<Rightarrow> False
           | function_name # _ \<Rightarrow> map_of kFunctionInfoMap function_name = None))"

definition has_too_few_tokens :: "string \<Rightarrow> bool" where
  "has_too_few_tokens line =
     (case shlex_split (strip line) of
        Inl e \<Rightarrow> False
      | Inr tokens \<Rightarrow>
          (case tokens of
             [] \<Rightarrow> True
           | function_name # _ \<Rightarrow>
               (case lookup_NumParamsForMatch function_name of
                  Inl e \<Rightarrow> False
                | Inr k \<Rightarrow> length tokens < k + 2)))"

definition malformed :: "string \<Rightarrow> bool" where
  "malformed line =
     (fails_to_tokenize line \<or> names_unknown_command line \<or> has_too_few_tokens line)"

text \<open>A character that the tokenizer reads as itself outside quotes.\<close>

definition plain :: "char \<Rightarrow> bool" where
  "plain c = (c \<notin> shlex_whitespace \<and> c \<notin> shlex_quotes \<and> c \<noteq> backslash)"

text \<open>
  The compaction as the specification words it, on the list of commands alone: the lines
  are grouped by command name in the order in which the names first occur, below a name by
  the first parameter in the order of first occurrence, and so on through the key; a key
  gives one line, with the value of its last command. \<open>compact_node n\<close> works on the
  commands of one group, with the tokens before the group's level dropped and \<open>n\<close> key
  tokens to go. \<open>spec_node\<close> and \<open>spec_root\<close> are the dictionaries built the same way.
\<close>

fun compact_node :: "nat \<Rightarrow> string list list \<Rightarrow> string list list" where
  "compact_node 0 cs = [[hd (last cs)]]"
| "compact_node (Suc n) cs =
     concat (map (\<lambda>t. map ((#) t) (compact_node n (map tl (filter (\<lambda>c. hd c = t) cs))))
       (insertion_order (map hd cs)))"

definition compact :: "string list list \<Rightarrow> string list list" where
  "compact cmds =
     concat (map (\<lambda>name. map ((#) name)
                (compact_node (match_arity name) (map tl (filter (\<lambda>c. hd c = name) cmds))))
       (insertion_order (map hd cmds)))"

fun spec_node :: "nat \<Rightarrow> string list list \<Rightarrow> changes_dict" where
  "spec_node 0 cs = LastParam (hd (last cs))"
| "spec_node (Suc n) cs =
     OrderedDict (map (\<lambda>t. (t, spec_node n (map tl (filter (\<lambda>c. hd c = t) cs))))
       (insertion_order (map hd cs)))"

definition spec_root :: "string list list \<Rightarrow> changes_dict" where
  "spec_root cmds =
     OrderedDict (map (\<lambda>name. (name, spec_node (match_arity name) (map tl (filter (\<lambda>c. hd c = name) cmds))))
       (insertion_order (map hd cmds)))"

text \<open>
  A history of five commands with two updates of keys already present, and the dictionary
  it gives.
\<close>

definition scenario :: "string list list" where
  "scenario =
     [[''set_currency_to_tier'', ''Chaos Orb'', ''3''],
      [''set_hide_maps_below_tier'', ''10''],
      [''set_currency_to_tier'', ''Chromatic Orb'', ''5''],
      [''set_hide_maps_below_tier'', ''14''],
      [''set_currency_to_tier'', ''Chaos Orb'', ''4'']]"

definition scenario_dict :: changes_dict where
  "scenario_dict =
     OrderedDict
       [(''set_currency_to_tier'',
           OrderedDict [(''Chaos Orb'', LastParam ''4''), (''Chromatic Orb'', LastParam ''5'')]),
        (''set_hide_maps_below_tier'', LastParam ''14'')]"

text \<open>
  A line of \<^verbatim>\<open>backend_cli.input\<close> that the batch loop executes as a command with
  \<^verbatim>\<open>ModifiesFilter\<close> true.
\<close>

definition is_mutator_call :: "string \<Rightarrow> bool" where
  "is_mutator_call function_call_string =
     (strip function_call_string \<noteq> [] \<and>
      (case shlex_split function_call_string of
         Inl e \<Rightarrow> False
       | Inr [] \<Rightarrow> False
       | Inr (function_name # function_params) \<Rightarrow> lookup_ModifiesFilter function_name = Inr True))"

text \<open>
  What \<^verbatim>\<open>get_all_currency_tiers\<close> collects before it removes the final newline, when tier
  \<open>t\<close> holds the currency names \<open>names t\<close>.
\<close>

definition currency_report :: "(nat \<Rightarrow> string list) \<Rightarrow> nat \<Rightarrow> string" where
  "currency_report names n =
     concat (map (\<lambda>tier. currency_tier_lines tier (names tier)) [1..<Suc n])"

text \<open>
  Collaborators for the examples: a filter that is the list of the mutator calls it has
  received, with nothing to report to any getter, and one profile. The numbers of tiers
  are example values. \<open>fresh\<close> is a state with such a filter loaded and empty files.
\<close>

definition recording :: "(lf_setter list, unit) collaborators" where
  "recording =
     \<lparr>lf_set = (\<lambda>call lf. Inr (lf @ [call])),
      lf_str = (\<lambda>getter lf. Inr ''0''),
      lf_vis = (\<lambda>getter lf. Inr kShow),
      lf_bool = (\<lambda>getter lf. Inr False),
      lf_list = (\<lambda>getter lf. Inr []),
      GetAllAddedSocketRules = (\<lambda>lf. Inr []),
      GetRuleMatchingItem = (\<lambda>item_text_lines lf. Inr (None, None)),
      GetRule = (\<lambda>type_tag tier_tag lf. Inr []),
      filters_exist = (\<lambda>lf. Inr (True, True, True)),
      LootFilter = (\<lambda>profile_name source prof. Inr []),
      set_order = remdups,
      kNumCurrencyTiersExcludingScrolls = 9,
      kNumEssenceTiers = 7,
      kNumDivCardTiers = 10,
      kNumUniqueItemTiers = 5,
      kNumUniqueMapTiers = 4,
      kItemSlots = [''Weapons'', ''Body Armours'', ''Helmets'', ''Gloves'', ''Boots'',
                    ''Amulets'', ''Rings'', ''Belts''],
      GetAllProfileNames = (\<lambda>prof. Inr [''MyProfile'']),
      CreateNewProfile = (\<lambda>new_profile_name config_lines prof. Inr (False, prof)),
      RenameProfile = (\<lambda>original_profile_name new_profile_name prof. Inr prof),
      DeleteProfile = (\<lambda>profile_name prof. Inr prof),
      SetActiveProfile = (\<lambda>profile_name prof. Inr prof),
      ProfileExists = (\<lambda>profile_name prof. profile_name = ''MyProfile'')\<rparr>"

definition fresh :: "(lf_setter list, unit) world" where
  "fresh =
     \<lparr>loot_filter = Some [], profiles = (), output_file = [], input_file = [],
      changes_file = [], saved_filters = []\<rparr>"

definition batch_input :: "string list" where
  "batch_input =
     [''set_hide_maps_below_tier 14'', '''', ''get_hide_maps_below_tier'',
      ''set_currency_to_tier '' @ [dquote] @ ''Chaos Orb'' @ [dquote] @ '' 3'']"


text \<open>
  The names of \<^verbatim>\<open>kFunctionInfoMap\<close> whose entry has \<^verbatim>\<open>ModifiesFilter\<close> set, in the order
  of the table.
\<close>

definition mutators :: "string list" where
  "mutators =
     [''set_rule_visibility'', ''set_currency_to_tier'',
      ''set_currency_tier_min_visible_stack_size'', ''set_hide_essences_above_tier'',
      ''set_hide_div_cards_above_tier'', ''set_hide_unique_items_above_tier'',
      ''set_hide_unique_maps_above_tier'', ''set_lowest_visible_oil'', ''set_gem_min_quality'',
      ''set_flask_min_quality'', ''set_hide_maps_below_tier'', ''set_basetype_visibility'',
      ''set_flask_visibility'', ''add_remove_socket_rule'', ''set_rgb_item_max_size'',
      ''set_chaos_recipe_enabled_for'']"

text \<open>
  \<open>records_in_bounds env name\<close>: whenever the branch of \<open>name\<close> returns, the name with the
  parameters it hands to the end of \<^verbatim>\<open>DelegateFunctionCall\<close> (default values appended)
  has two tokens more than \<^verbatim>\<open>NumParamsForMatch\<close>.
\<close>

definition records_in_bounds :: "('f, 'p) collaborators \<Rightarrow> string \<Rightarrow> bool" where
  "records_in_bounds env name =
     (\<forall>ps lf prof inp lf' prof' out ps'.
        DelegateFunctionCall_branch env name ps lf prof inp = Inr (lf', prof', out, ps') \<longrightarrow>
        (\<exists>k. lookup_NumParamsForMatch name = Inr k \<and> length (name # ps') = k + 2))"







text \<open>
  Change logs of the examples.
\<close>

definition replay_log :: "string list" where
  "replay_log =
     [''set_currency_to_tier A 1'', ''set_currency_to_tier B 2'', ''set_hide_maps_below_tier 3'']"

definition updated_log :: "string list" where
  "updated_log = [''set_hide_maps_below_tier 14'', ''set_currency_to_tier A 1'']"


text \<open>
  Notions for the round trip through the tokenizer. \<open>double_backslash s\<close>: two backslashes
  stand side by side in \<open>s\<close>. \<open>kept_in_quotes s\<close> follows the lexer between double quotes: no
  double quote, and every backslash is followed by a character other than a backslash and a
  double quote. \<open>slack st cs\<close> is a number of characters that the lexer, in the state \<open>st\<close>,
  is bound to drop from the input \<open>cs\<close>.
\<close>

fun double_backslash :: "string \<Rightarrow> bool" where
  "double_backslash (a # b # s) = (a = backslash \<and> b = backslash \<or> double_backslash (b # s))"
| "double_backslash [a] = False"
| "double_backslash [] = False"

fun kept_in_quotes :: "string \<Rightarrow> bool" where
  "kept_in_quotes [] = True"
| "kept_in_quotes [c] = (c \<noteq> dquote \<and> c \<noteq> backslash)"
| "kept_in_quotes (c # d # s) =
     (if c = backslash then d \<noteq> backslash \<and> d \<noteq> dquote \<and> kept_in_quotes s
      else c \<noteq> dquote \<and> kept_in_quotes (d # s))"

fun slack :: "shlex_state \<Rightarrow> string \<Rightarrow> nat" where
  "slack InWhitespace cs = (if list_all plain cs then 0 else 1)"
| "slack InWord cs = (if list_all plain cs then 0 else 1)"
| "slack (InQuotes q) cs = 1"
| "slack (InEscape None) cs = (if list_all plain (tl cs) then 0 else 1)"
| "slack (InEscape (Some q)) cs = 0"

text \<open>
  \<open>round_trips s\<close>: \<open>s\<close> has no double quote; when it has a space or a single quote, and so
  is wrapped in double quotes, it has no two backslashes side by side and does not end with a
  backslash; otherwise it is not empty and has no backslash, tab, line feed or carriage
  return.
\<close>

definition round_trips :: "string \<Rightarrow> bool" where
  "round_trips s =
     (dquote \<notin> set s \<and>
      (if space \<in> set s \<or> squote \<in> set s
       then \<not> double_backslash s \<and> last s \<noteq> backslash
       else s \<noteq> [] \<and> backslash \<notin> set s \<and>
            CHR 0x09 \<notin> set s \<and> CHR 0x0A \<notin> set s \<and> CHR 0x0D \<notin> set s))"

text \<open>
  An example: a string with a space, a backslash and a tab.
\<close>

definition backslash_inside :: string where
  "backslash_inside = ''Orb of'' @ [backslash] @ ''Alchemy'' @ [CHR 0x09] @ ''x''"

text \<open>
  Example values. \<open>quiet\<close> is a logger that never raises; \<open>one_line_log\<close> raises \<^verbatim>\<open>OSError\<close>
  once a line has been logged; with \<open>interrupted\<close> the constructor of the filter raises
  \<^verbatim>\<open>KeyboardInterrupt\<close>. The texts of \<open>format_exc\<close> and \<open>str_argv\<close> are stand-ins.
  \<open>start\<close> is a process where nothing has happened yet.
\<close>

fun logged :: "event list \<Rightarrow> string list" where
  "logged [] = []"
| "logged (Logged message # evs) = message # logged evs"
| "logged (ExitCodeWritten code # evs) = logged evs"
| "logged (LogInitialized log_filename # evs) = logged evs"

definition quiet :: runtime where
  "quiet =
     \<lparr>InitializeLog = (\<lambda>log_filename tr. None),
      Log = (\<lambda>message tr. None),
      format_exc = (\<lambda>e. ''Traceback (most recent call last):''),
      str_argv = (\<lambda>argv. ''['' @ join '', '' argv @ '']'')\<rparr>"

definition one_line_log :: runtime where
  "one_line_log = quiet\<lparr>Log := (\<lambda>message tr. if logged tr = [] then None else Some OSError)\<rparr>"

definition interrupted :: "(lf_setter list, unit) collaborators" where
  "interrupted = recording\<lparr>LootFilter := (\<lambda>profile_name source prof. Inl KeyboardInterrupt)\<rparr>"

definition start :: "(lf_setter list, unit) process" where
  "start = \<lparr>trace = [], state = fresh\<rparr>"

definition good_argv :: "string list" where
  "good_argv = [''backend_cli.py'', ''set_hide_maps_below_tier'', ''14'', ''MyProfile'']"

definition bad_argv :: "string list" where
  "bad_argv = [''backend_cli.py'', ''set_hide_maps_below_tier'', ''x'', ''MyProfile'']"

text \<open>
  \<open>in_progress p\<close> is the process after the code -1 has been written, and
  \<open>log_only tr tr'\<close>: the events \<open>tr'\<close> are the events \<open>tr\<close> followed by events that write no
  exit code.
\<close>

definition in_progress :: "('f, 'p) process \<Rightarrow> ('f, 'p) process" where
  "in_progress p = p\<lparr>trace := trace p @ [ExitCodeWritten ''-1'']\<rparr>"

definition log_only :: "event list \<Rightarrow> event list \<Rightarrow> bool" where
  "log_only tr tr' = (\<exists>evs. tr' = tr @ evs \<and> exit_codes evs = [])"




section \<open>The flattened lines of a dictionary\<close>

lemma Rec_append:
  "ConvertChangesDictToFunctionListRec d (q @ p) = map ((@) q) (ConvertChangesDictToFunctionListRec d p)"
proof (induction d p arbitrary: q rule: ConvertChangesDictToFunctionListRec.induct)
  case (1 last_param current_prefix_list)
  then show ?case by simp
next
  case (2 items current_prefix_list)
  have eq: "map (\<lambda>item. ConvertChangesDictToFunctionListRec (snd item) ((q @ current_prefix_list) @ [fst item])) items
      = map (\<lambda>item. map ((@) q) (ConvertChangesDictToFunctionListRec (snd item) (current_prefix_list @ [fst item]))) items"
    by (rule map_cong) (use 2 in auto)
  have "ConvertChangesDictToFunctionListRec (OrderedDict items) (q @ current_prefix_list)
      = concat (map (\<lambda>item. ConvertChangesDictToFunctionListRec (snd item) ((q @ current_prefix_list) @ [fst item])) items)"
    by (simp add: split_def)
  also have "\<dots> = concat (map (\<lambda>item. map ((@) q) (ConvertChangesDictToFunctionListRec (snd item) (current_prefix_list @ [fst item]))) items)"
    by (simp only: eq)
  also have "\<dots> = map ((@) q) (ConvertChangesDictToFunctionListRec (OrderedDict items) current_prefix_list)"
    by (simp add: map_concat comp_def split_def)
  finally show ?case .
qed

lemma lines_LastParam [simp]: "lines (LastParam v) = [[v]]"
  by (simp add: lines_def)

lemma lines_OrderedDict:
  "lines (OrderedDict items) = concat (map (\<lambda>item. map ((#) (fst item)) (lines (snd item))) items)"
proof -
  have "\<And>k sub. ConvertChangesDictToFunctionListRec sub [k] = map ((#) k) (lines sub)"
    using Rec_append[of _ "[_]" "[]"] by (simp add: lines_def)
  then show ?thesis by (simp add: lines_def split_def)
qed

lemma lines_Nil [simp]: "lines (OrderedDict []) = []"
  by (simp add: lines_OrderedDict)

lemma lines_Cons:
  "lines (OrderedDict (item # items)) = map ((#) (fst item)) (lines (snd item)) @ lines (OrderedDict items)"
  by (simp add: lines_OrderedDict)

lemma lines_append:
  "lines (OrderedDict (xs @ ys)) = lines (OrderedDict xs) @ lines (OrderedDict ys)"
  by (simp add: lines_OrderedDict)

lemma od_set_new: "k \<notin> fst ` set items \<Longrightarrow> od_set items k v = items @ [(k, v)]"
  by (induction items) auto

lemma od_set_split:
  "k \<notin> fst ` set xs \<Longrightarrow> od_set (xs @ (k, v0) # ys) k v = xs @ (k, v) # ys"
  by (induction xs) auto

lemma od_set_old:
  "k \<in> fst ` set items \<Longrightarrow>
   \<exists>xs v0 ys. items = xs @ (k, v0) # ys \<and> k \<notin> fst ` set xs"
proof (induction items)
  case Nil
  then show ?case by simp
next
  case (Cons item items)
  show ?case
  proof (cases "fst item = k")
    case True
    then have "item # items = [] @ (k, snd item) # items \<and> k \<notin> fst ` set []" by auto
    then show ?thesis by blast
  next
    case False
    then obtain xs v0 ys where "items = xs @ (k, v0) # ys" "k \<notin> fst ` set xs"
      using Cons by auto
    then have "item # items = (item # xs) @ (k, v0) # ys \<and> k \<notin> fst ` set (item # xs)"
      using False by auto
    then show ?thesis by blast
  qed
qed

lemma map_of_split:
  "k \<notin> fst ` set xs \<Longrightarrow> map_of (xs @ (k, v0) # ys) k = Some v0"
  by (induction xs) auto

lemma od_set_keys:
  "map fst (od_set items k v) = (if k \<in> fst ` set items then map fst items else map fst items @ [k])"
  by (induction items) auto

lemma map_of_od_set: "map_of (od_set items k v) = (map_of items)(k \<mapsto> v)"
  by (induction items) auto

lemma distinct_od_set: "distinct (map fst items) \<Longrightarrow> distinct (map fst (od_set items k v))"
  by (auto simp: od_set_keys)

lemma shaped_lines_length:
  "shaped n d \<Longrightarrow> l \<in> set (lines d) \<Longrightarrow> length l = Suc n"
proof (induction n d arbitrary: l rule: shaped.induct)
  case (2 n items)
  then obtain item l' where "item \<in> set items" "l' \<in> set (lines (snd item))" "l = fst item # l'"
    by (auto simp: lines_OrderedDict)
  then show ?case using 2 by (auto simp: list_all_iff)
qed auto

lemma lines_hd:
  "l \<in> set (lines (OrderedDict items)) \<Longrightarrow> \<exists>item l'. item \<in> set items \<and> l' \<in> set (lines (snd item)) \<and> l = fst item # l'"
  by (auto simp: lines_OrderedDict)

lemma lines_nonempty: "l \<in> set (lines d) \<Longrightarrow> l \<noteq> []"
  by (cases d) (auto simp: lines_OrderedDict)

lemma list_all_od_set:
  "list_all (\<lambda>item. P (fst item) (snd item)) items \<Longrightarrow> P k v \<Longrightarrow>
   list_all (\<lambda>item. P (fst item) (snd item)) (od_set items k v)"
  by (induction items) auto

lemma lines_foreign:
  "t \<notin> fst ` set items \<Longrightarrow> l \<in> set (lines (OrderedDict items)) \<Longrightarrow> foreign t l"
  by (auto simp: lines_OrderedDict foreign_def dest: lines_nonempty)

lemma lift_lines:
  assumes dist: "distinct (map fst items)"
    and c: "lines (child_or_empty items t) = pre' @ old' @ post'"
  shows "\<exists>pre post. lines (OrderedDict items) = pre @ map ((#) t) old' @ post \<and>
           (\<forall>c' new'. lines c' = pre' @ new' @ post' \<longrightarrow>
              lines (OrderedDict (od_set items t c')) = pre @ map ((#) t) new' @ post) \<and>
           (\<forall>l \<in> set (pre @ post). l \<in> (#) t ` set (pre' @ post') \<or> foreign t l)"
proof (cases "t \<in> fst ` set items")
  case True
  then obtain xs c0 ys where items: "items = xs @ (t, c0) # ys" and nx: "t \<notin> fst ` set xs"
    using od_set_old[of t items] by blast
  have ny: "t \<notin> fst ` set ys" using dist items by auto
  have upd: "\<And>v. od_set items t v = xs @ (t, v) # ys"
    using nx by (simp add: items od_set_split)
  have "child_or_empty items t = c0"
    using map_of_split[OF nx, of c0 ys] by (simp only: child_or_empty_def items option.case)
  then have c0: "lines c0 = pre' @ old' @ post'" using c by simp
  let ?pre = "lines (OrderedDict xs) @ map ((#) t) pre'"
  let ?post = "map ((#) t) post' @ lines (OrderedDict ys)"
  have 1: "lines (OrderedDict items) = ?pre @ map ((#) t) old' @ ?post"
    by (simp add: items lines_append lines_Cons c0)
  have 2: "\<forall>c' new'. lines c' = pre' @ new' @ post' \<longrightarrow>
        lines (OrderedDict (od_set items t c')) = ?pre @ map ((#) t) new' @ ?post"
    by (simp add: upd lines_append lines_Cons)
  have 3: "\<forall>l \<in> set (?pre @ ?post). l \<in> (#) t ` set (pre' @ post') \<or> foreign t l"
    using lines_foreign[OF nx] lines_foreign[OF ny] by auto
  show ?thesis using 1 2 3 by blast
next
  case False
  then have "map_of items t = None" by (simp add: map_of_eq_None_iff)
  then have e: "pre' = []" "old' = []" "post' = []" using c by (auto simp: child_or_empty_def)
  have "lines (OrderedDict items) = lines (OrderedDict items) @ map ((#) t) old' @ []" using e by simp
  moreover have "\<forall>c' new'. lines c' = pre' @ new' @ post' \<longrightarrow>
        lines (OrderedDict (od_set items t c')) = lines (OrderedDict items) @ map ((#) t) new' @ []"
    using e False by (auto simp: od_set_new lines_append lines_Cons)
  moreover have "\<forall>l \<in> set (lines (OrderedDict items) @ []). l \<in> (#) t ` set (pre' @ post') \<or> foreign t l"
    using False lines_foreign by auto
  ultimately show ?thesis by blast
qed

lemma shaped_child_or_empty:
  assumes "list_all (\<lambda>item. shaped (Suc n) (snd item)) items"
  shows "shaped (Suc n) (child_or_empty items t)"
proof (cases "map_of items t")
  case None
  then show ?thesis by (simp add: child_or_empty_def)
next
  case (Some c)
  then have "(t, c) \<in> set items" by (rule map_of_SomeD)
  then show ?thesis using assms Some by (auto simp: child_or_empty_def list_all_iff)
qed

lemma butlast_not_key:
  assumes "\<forall>l \<in> set ls. l \<in> (#) t ` set ls' \<or> foreign t l"
    and "key' \<notin> butlast ` set ls'" and "\<forall>l \<in> set ls'. l \<noteq> []"
  shows "t # key' \<notin> butlast ` set ls"
proof
  assume "t # key' \<in> butlast ` set ls"
  then obtain l where l: "l \<in> set ls" "butlast l = t # key'" by auto
  from assms(1) l(1) consider l0 where "l0 \<in> set ls'" "l = t # l0" | "foreign t l" by auto
  then show False
  proof cases
    case 1
    then have "l0 \<noteq> []" using assms(3) by auto
    then have "butlast l = t # butlast l0" using 1 by simp
    then show False using l(2) 1 assms(2) by auto
  next
    case 2
    then obtain k l' where "l = k # l'" "k \<noteq> t" "l' \<noteq> []" by (auto simp: foreign_def)
    then show False using l(2) by simp
  qed
qed

lemma updated_lines_lift:
  assumes dist: "distinct (map fst items)"
    and upd: "updated_lines (lines (child_or_empty items t)) (lines c') key' v"
  shows "updated_lines (lines (OrderedDict items)) (lines (OrderedDict (od_set items t c'))) (t # key') v"
proof -
  obtain pre' old' post' where c: "lines (child_or_empty items t) = pre' @ old' @ post'"
    and c': "lines c' = pre' @ [key' @ [v]] @ post'"
    and old': "old' = [] \<or> (\<exists>v0. old' = [key' @ [v0]])"
    and nk: "key' \<notin> butlast ` set (pre' @ post')"
    using upd unfolding updated_lines_def by blast
  obtain pre post where 1: "lines (OrderedDict items) = pre @ map ((#) t) old' @ post"
    and 2: "lines (OrderedDict (od_set items t c')) = pre @ map ((#) t) [key' @ [v]] @ post"
    and 3: "\<forall>l \<in> set (pre @ post). l \<in> (#) t ` set (pre' @ post') \<or> foreign t l"
    using lift_lines[OF dist c] c' by blast
  have ne: "\<forall>l \<in> set (pre' @ post'). l \<noteq> []"
    using lines_nonempty[of _ c'] c' by auto
  have 4: "t # key' \<notin> butlast ` set (pre @ post)"
    by (rule butlast_not_key[OF 3 nk ne])
  have 5: "map ((#) t) old' = [] \<or> (\<exists>v0. map ((#) t) old' = [(t # key') @ [v0]])"
    using old' by auto
  show ?thesis
    unfolding updated_lines_def using 1 2 4 5 by (intro exI[of _ pre] exI[of _ "map ((#) t) old'"] exI[of _ post]) simp
qed

lemma updated_lines_leaf:
  assumes dist: "distinct (map fst items)"
    and leaf: "list_all (\<lambda>item. shaped 0 (snd item)) items"
  shows "updated_lines (lines (OrderedDict items)) (lines (OrderedDict (od_set items t (LastParam v)))) [t] v"
proof -
  have "updated_lines (lines (child_or_empty items t)) (lines (LastParam v)) [] v"
  proof (cases "map_of items t")
    case None
    then show ?thesis
      unfolding updated_lines_def child_or_empty_def
      by (intro exI[of _ "[]"]) simp
  next
    case (Some c)
    then have "(t, c) \<in> set items" by (rule map_of_SomeD)
    then have "shaped 0 c" using leaf by (auto simp: list_all_iff)
    then obtain v0 where "c = LastParam v0" by (cases c) auto
    then show ?thesis
      unfolding updated_lines_def child_or_empty_def using Some
      by (intro exI[of _ "[]"] exI[of _ "[[v0]]"]) simp
  qed
  from updated_lines_lift[OF dist this] show ?thesis by simp
qed

lemma loop_lines:
  assumes "shaped (Suc n) d" "n + 2 \<le> length toks"
  shows "\<exists>d'. AddFunctionToChangesDict_loop n toks d = Inr d' \<and> shaped (Suc n) d' \<and>
           updated_lines (lines d) (lines d') (take (Suc n) toks) (toks ! Suc n)"
  using assms
proof (induction n arbitrary: toks d)
  case 0
  then obtain t v extra where toks: "toks = t # v # extra"
    by (cases toks; cases "tl toks") auto
  obtain items where d: "d = OrderedDict items" using 0(1) by (cases d) auto
  have dist: "distinct (map fst items)" and leaf: "list_all (\<lambda>item. shaped 0 (snd item)) items"
    using 0(1) d by auto
  have "shaped (Suc 0) (OrderedDict (od_set items t (LastParam v)))"
    using dist leaf by (simp add: distinct_od_set list_all_od_set[where P="\<lambda>k. shaped 0"])
  then show ?case
    using updated_lines_leaf[OF dist leaf, of t v] by (simp add: toks d)
next
  case (Suc n)
  then obtain t rest where toks: "toks = t # rest" by (cases toks) auto
  obtain items where d: "d = OrderedDict items" using Suc(2) by (cases d) auto
  have dist: "distinct (map fst items)"
    and sh: "list_all (\<lambda>item. shaped (Suc n) (snd item)) items"
    using Suc(2) d by auto
  have "shaped (Suc n) (child_or_empty items t)" by (rule shaped_child_or_empty[OF sh])
  moreover have "n + 2 \<le> length rest" using Suc(3) toks by simp
  ultimately obtain c' where c': "AddFunctionToChangesDict_loop n rest (child_or_empty items t) = Inr c'"
      "shaped (Suc n) c'"
      "updated_lines (lines (child_or_empty items t)) (lines c') (take (Suc n) rest) (rest ! Suc n)"
    using Suc.IH by blast
  have "shaped (Suc (Suc n)) (OrderedDict (od_set items t c'))"
    using dist sh c'(2) by (simp add: distinct_od_set list_all_od_set[where P="\<lambda>k. shaped (Suc n)"])
  moreover have "updated_lines (lines d) (lines (OrderedDict (od_set items t c')))
       (take (Suc (Suc n)) toks) (toks ! Suc (Suc n))"
    using updated_lines_lift[OF dist c'(3)] by (simp add: toks d)
  moreover have "AddFunctionToChangesDict_loop (Suc n) toks d = Inr (OrderedDict (od_set items t c'))"
    using c'(1) by (simp add: toks d child_or_empty_def)
  ultimately show ?case by blast
qed

lemma loop_short:
  "length toks < n + 2 \<Longrightarrow> \<exists>e. AddFunctionToChangesDict_loop n toks d = Inl e"
proof (induction n toks d rule: AddFunctionToChangesDict_loop.induct)
  case (1 n current_dict)
  then show ?case by simp
next
  case (2 current_token rest current_dict)
  then show ?case by (cases rest) auto
next
  case (3 n current_token rest current_dict)
  show ?case
  proof (cases current_dict)
    case (LastParam s)
    then show ?thesis by simp
  next
    case (OrderedDict items)
    have "length rest < n + 2" using 3(2) by simp
    then obtain e where
      "AddFunctionToChangesDict_loop n rest
         (case map_of items current_token of None \<Rightarrow> OrderedDict [] | Some subdict \<Rightarrow> subdict) = Inl e"
      using 3(1)[OF OrderedDict] by blast
    then show ?thesis using OrderedDict by simp
  qed
qed

lemma add_well_formed:
  assumes "AddFunctionToChangesDict toks d = Inr d'"
  shows "well_formed toks"
proof -
  obtain items where d: "d = OrderedDict items"
    using assms by (cases d) (auto simp: AddFunctionToChangesDict_def)
  obtain name rest where toks: "toks = name # rest"
    using assms d by (cases toks) (auto simp: AddFunctionToChangesDict_def)
  obtain k where k: "lookup_NumParamsForMatch name = Inr k"
    using assms d toks by (cases "lookup_NumParamsForMatch name") (auto simp: AddFunctionToChangesDict_def)
  have "AddFunctionToChangesDict_loop k toks d = Inr d'"
    using assms d toks k by (simp add: AddFunctionToChangesDict_def)
  then have "\<not> length toks < k + 2" using loop_short[of toks k d] by auto
  then show ?thesis using toks k by (simp add: well_formed_def)
qed

lemma updated_lines_leaf':
  assumes dist: "distinct (map fst items)"
    and leaf: "shaped 0 (child_or_empty items t) \<or> map_of items t = None"
  shows "updated_lines (lines (OrderedDict items)) (lines (OrderedDict (od_set items t (LastParam v)))) [t] v"
proof -
  have "updated_lines (lines (child_or_empty items t)) (lines (LastParam v)) [] v"
  proof (cases "map_of items t")
    case None
    then show ?thesis
      unfolding updated_lines_def child_or_empty_def
      by (intro exI[of _ "[]"]) simp
  next
    case (Some c)
    then have "shaped 0 c" using leaf by (auto simp: child_or_empty_def)
    then obtain v0 where "c = LastParam v0" by (cases c) auto
    then show ?thesis
      unfolding updated_lines_def child_or_empty_def using Some
      by (intro exI[of _ "[]"] exI[of _ "[[v0]]"]) simp
  qed
  from updated_lines_lift[OF dist this] show ?thesis by simp
qed

lemma root_child:
  assumes "root_shaped (OrderedDict items)" "lookup_NumParamsForMatch name = Inr k"
  shows "shaped k (child_or_empty items name) \<or> map_of items name = None"
proof (cases "map_of items name")
  case None
  then show ?thesis by simp
next
  case (Some c)
  then have "(name, c) \<in> set items" by (rule map_of_SomeD)
  then show ?thesis using assms Some
    by (auto simp: root_shaped_def list_all_iff child_or_empty_def)
qed

lemma add_lines:
  assumes rs: "root_shaped d" and wf: "well_formed toks"
  shows "\<exists>d'. AddFunctionToChangesDict toks d = Inr d' \<and> root_shaped d' \<and>
           updated_lines (lines d) (lines d') (cmd_key toks) (cmd_value toks)"
proof -
  obtain items where d: "d = OrderedDict items" using rs by (cases d) (auto simp: root_shaped_def)
  obtain name rest where toks: "toks = name # rest" using wf by (cases toks) (auto simp: well_formed_def)
  obtain k where k: "lookup_NumParamsForMatch name = Inr k" and len: "k + 2 \<le> length toks"
    using wf toks by (cases "lookup_NumParamsForMatch name") (auto simp: well_formed_def)
  have dist: "distinct (map fst items)" using rs d by (simp add: root_shaped_def)
  have all: "list_all (\<lambda>item. (\<lambda>n c. case lookup_NumParamsForMatch n of Inl e \<Rightarrow> False | Inr k \<Rightarrow> shaped k c) (fst item) (snd item)) items"
    using rs d by (simp add: root_shaped_def)
  have key: "cmd_key toks = take (Suc k) toks" and val: "cmd_value toks = toks ! Suc k"
    using toks k by (simp_all add: cmd_key_def cmd_value_def match_arity_def)
  have ch: "shaped k (child_or_empty items name) \<or> map_of items name = None"
    using root_child[of items name k] rs d k by simp
  have "\<exists>c'. AddFunctionToChangesDict_loop k toks d = Inr (OrderedDict (od_set items name c')) \<and>
          shaped k c' \<and>
          updated_lines (lines d) (lines (OrderedDict (od_set items name c'))) (take (Suc k) toks) (toks ! Suc k)"
  proof (cases k)
    case 0
    then obtain v extra where rest: "rest = v # extra" using len toks by (cases rest) auto
    have "updated_lines (lines d) (lines (OrderedDict (od_set items name (LastParam v)))) [name] v"
      using updated_lines_leaf'[OF dist] ch 0 d by blast
    then show ?thesis using 0 toks rest d by (intro exI[of _ "LastParam v"]) simp
  next
    case (Suc m)
    have "shaped (Suc m) (child_or_empty items name)"
      using ch Suc by (auto simp: child_or_empty_def)
    moreover have "m + 2 \<le> length rest" using len toks Suc by simp
    ultimately obtain c' where c': "AddFunctionToChangesDict_loop m rest (child_or_empty items name) = Inr c'"
      "shaped (Suc m) c'"
      "updated_lines (lines (child_or_empty items name)) (lines c') (take (Suc m) rest) (rest ! Suc m)"
      using loop_lines by blast
    have "updated_lines (lines d) (lines (OrderedDict (od_set items name c')))
       (take (Suc k) toks) (toks ! Suc k)"
      using updated_lines_lift[OF dist c'(3)] by (simp add: toks d Suc)
    moreover have "AddFunctionToChangesDict_loop k toks d = Inr (OrderedDict (od_set items name c'))"
      using c'(1) by (simp add: toks d child_or_empty_def Suc)
    ultimately show ?thesis using c'(2) Suc by blast
  qed
  then obtain c' where c': "AddFunctionToChangesDict_loop k toks d = Inr (OrderedDict (od_set items name c'))"
      "shaped k c'"
      "updated_lines (lines d) (lines (OrderedDict (od_set items name c'))) (take (Suc k) toks) (toks ! Suc k)"
    by blast
  have "list_all (\<lambda>item. (\<lambda>n c. case lookup_NumParamsForMatch n of Inl e \<Rightarrow> False | Inr k \<Rightarrow> shaped k c) (fst item) (snd item)) (od_set items name c')"
    by (rule list_all_od_set[OF all]) (simp add: k c'(2))
  then have "root_shaped (OrderedDict (od_set items name c'))"
    using dist by (simp add: root_shaped_def distinct_od_set)
  moreover have "AddFunctionToChangesDict toks d = Inr (OrderedDict (od_set items name c'))"
    using c'(1) by (simp add: AddFunctionToChangesDict_def d toks k)
  ultimately show ?thesis using c'(3) key val by auto
qed

lemma AddAll_append:
  "AddAll (xs @ ys) d = (case AddAll xs d of Inl e \<Rightarrow> Inl e | Inr d' \<Rightarrow> AddAll ys d')"
  by (induction xs arbitrary: d) (auto split: sum.splits)

lemma AddAll_snoc:
  "AddAll (cs @ [c]) d = (case AddAll cs d of Inl e \<Rightarrow> Inl e | Inr d' \<Rightarrow> AddFunctionToChangesDict c d')"
  by (simp add: AddAll_append split: sum.splits)

lemma root_shaped_empty: "root_shaped (OrderedDict [])"
  by (simp add: root_shaped_def)

lemma add_step:
  assumes "root_shaped d" "AddFunctionToChangesDict toks d = Inr d'"
  shows "root_shaped d' \<and> updated_lines (lines d) (lines d') (cmd_key toks) (cmd_value toks)"
  using add_lines[OF assms(1) add_well_formed[OF assms(2)]] assms(2) by auto

lemma AddAll_root_shaped:
  "root_shaped d \<Longrightarrow> AddAll cs d = Inr d' \<Longrightarrow> root_shaped d'"
proof (induction cs arbitrary: d)
  case Nil
  then show ?case by simp
next
  case (Cons c cs)
  then obtain d1 where "AddFunctionToChangesDict c d = Inr d1" "AddAll cs d1 = Inr d'"
    by (auto split: sum.splits)
  then show ?case using Cons add_step by blast
qed

lemma updated_keys:
  assumes "updated_lines before after key v"
  shows "\<exists>kp kq. map butlast after = kp @ [key] @ kq \<and> key \<notin> set (kp @ kq) \<and>
           (map butlast before = kp @ kq \<or> map butlast before = kp @ [key] @ kq)"
proof -
  obtain pre old post where b: "before = pre @ old @ post" and a: "after = pre @ [key @ [v]] @ post"
    and o: "old = [] \<or> (\<exists>v0. old = [key @ [v0]])" and n: "key \<notin> butlast ` set (pre @ post)"
    using assms unfolding updated_lines_def by blast
  have "map butlast after = map butlast pre @ [key] @ map butlast post" using a by simp
  moreover have "key \<notin> set (map butlast pre @ map butlast post)" using n by auto
  moreover have "map butlast before = map butlast pre @ map butlast post \<or>
                 map butlast before = map butlast pre @ [key] @ map butlast post"
    using b o by auto
  ultimately show ?thesis by blast
qed

lemma updated_same_keys:
  assumes "updated_lines before after key v" "key \<in> butlast ` set before"
  shows "map butlast after = map butlast before"
proof -
  obtain kp kq where k: "map butlast after = kp @ [key] @ kq" "key \<notin> set (kp @ kq)"
     "map butlast before = kp @ kq \<or> map butlast before = kp @ [key] @ kq"
    using updated_keys[OF assms(1)] by blast
  have "key \<in> set (map butlast before)" using assms(2) by simp
  then have "map butlast before \<noteq> kp @ kq" using k(2) by metis
  then show ?thesis using k by simp
qed

lemma updated_subseq:
  assumes "updated_lines before after key v"
  shows "subseq (map butlast before) (map butlast after)"
proof -
  obtain kp kq where k: "map butlast after = kp @ [key] @ kq"
     "map butlast before = kp @ kq \<or> map butlast before = kp @ [key] @ kq"
    using updated_keys[OF assms(1)] by blast
  have "subseq kq (key # kq)" by (rule list_emb_Cons) simp
  then have "subseq (kp @ kq) (kp @ [key] @ kq)"
    by (simp add: list_emb_append_mono)
  then show ?thesis using k by auto
qed

lemma final_value_snoc_same: "final_value (cmds @ [c]) (cmd_key c) = cmd_value c"
  by (simp add: final_value_def)

lemma final_value_snoc_other: "key \<noteq> cmd_key c \<Longrightarrow> final_value (cmds @ [c]) key = final_value cmds key"
  by (simp add: final_value_def)

lemma keys_ok_step:
  assumes ok: "keys_ok cmds before" and up: "updated_lines before after (cmd_key c) (cmd_value c)"
  shows "keys_ok (cmds @ [c]) after"
proof -
  let ?key = "cmd_key c"
  obtain pre old post where b: "before = pre @ old @ post" and a: "after = pre @ [?key @ [cmd_value c]] @ post"
    and o: "old = [] \<or> (\<exists>v0. old = [?key @ [v0]])" and n: "?key \<notin> butlast ` set (pre @ post)"
    using up unfolding updated_lines_def by blast
  have d0: "distinct (map butlast (pre @ post))" using ok b by (auto simp: keys_ok_def)
  have 1: "distinct (map butlast after)" using d0 n a by auto
  have s0: "set (map butlast before) = cmd_key ` set cmds" using ok by (simp add: keys_ok_def)
  have 2: "set (map butlast after) = cmd_key ` set (cmds @ [c])"
    using s0 a b o by auto
  have v0: "\<forall>l \<in> set (pre @ post). l = butlast l @ [final_value cmds (butlast l)]"
    using ok b by (auto simp: keys_ok_def list_all_iff)
  have 3: "list_all (\<lambda>l. l = butlast l @ [final_value (cmds @ [c]) (butlast l)]) after"
    unfolding list_all_iff
  proof
    fix l assume l: "l \<in> set after"
    show "l = butlast l @ [final_value (cmds @ [c]) (butlast l)]"
    proof (cases "l = ?key @ [cmd_value c]")
      case True
      then show ?thesis by (simp add: final_value_snoc_same)
    next
      case False
      then have lp: "l \<in> set (pre @ post)" using l a by auto
      then have "butlast l \<in> butlast ` set (pre @ post)" by (rule imageI)
      then have "butlast l \<noteq> ?key" using n by metis
      then show ?thesis using v0 lp by (simp add: final_value_snoc_other)
    qed
  qed
  show ?thesis unfolding keys_ok_def using 1 2 3 by simp
qed

lemma AddAll_keys_ok_gen:
  "AddAll cmds (OrderedDict []) = Inr d \<Longrightarrow> root_shaped d \<and> keys_ok cmds (lines d)"
proof (induction cmds arbitrary: d rule: rev_induct)
  case Nil
  then show ?case by (auto simp: keys_ok_def root_shaped_def)
next
  case (snoc c cmds)
  then obtain d0 where d0: "AddAll cmds (OrderedDict []) = Inr d0" "AddFunctionToChangesDict c d0 = Inr d"
    by (auto simp: AddAll_snoc split: sum.splits)
  then have "root_shaped d0" "keys_ok cmds (lines d0)" using snoc.IH by auto
  then show ?case using add_step[OF _ d0(2)] keys_ok_step[of cmds "lines d0" "lines d" c] by simp
qed

lemma insertion_order_snoc:
  "insertion_order (xs @ [x]) = add_child (insertion_order xs) x"
  by (simp add: insertion_order_def add_child_def)

lemma children_LastParam [simp]: "children (LastParam v) p = []"
  by (cases p) (simp_all add: children_def)

lemma children_empty [simp]: "children (OrderedDict []) p = []"
  by (cases p) (simp_all add: children_def)

lemma children_Nil: "children (OrderedDict items) [] = map fst items"
  by (simp add: children_def)

lemma children_Cons:
  "children (OrderedDict items) (t # p) = children (child_or_empty items t) p"
proof (cases "map_of items t")
  case None
  have "children (OrderedDict items) (t # p) = []" using None by (simp add: children_def)
  moreover have "children (child_or_empty items t) p = []"
    using None by (simp add: child_or_empty_def)
  ultimately show ?thesis by simp
next
  case (Some c)
  then show ?thesis by (simp add: children_def child_or_empty_def)
qed

lemma children_od_set_same:
  "children (OrderedDict (od_set items t c')) (t # p) = children c' p"
  by (simp add: children_def map_of_od_set)

lemma children_od_set_other:
  "q \<noteq> t \<Longrightarrow> children (OrderedDict (od_set items t c')) (q # p) = children (OrderedDict items) (q # p)"
  by (simp add: children_def map_of_od_set)

lemma children_od_set_Nil:
  "children (OrderedDict (od_set items t c')) [] = add_child (children (OrderedDict items) []) t"
  by (simp add: children_Nil od_set_keys add_child_def)

lemma extends_Nil: "extends [] key = (key \<noteq> [])"
  by (auto simp: extends_def)

lemma extends_Cons: "extends (q # p) (t # key') = (q = t \<and> extends p key')"
  by (auto simp: extends_def)

lemma updated_children_lift:
  assumes "updated_children (child_or_empty items t) c' key'"
  shows "updated_children (OrderedDict items) (OrderedDict (od_set items t c')) (t # key')"
  unfolding updated_children_def
proof
  fix p
  show "children (OrderedDict (od_set items t c')) p =
        (if extends p (t # key') then add_child (children (OrderedDict items) p) ((t # key') ! length p)
         else children (OrderedDict items) p)"
  proof (cases p)
    case Nil
    then show ?thesis by (simp add: children_od_set_Nil extends_Nil)
  next
    case (Cons q ps)
    show ?thesis
    proof (cases "q = t")
      case True
      have a: "children (OrderedDict (od_set items t c')) (t # ps) = children c' ps"
        by (rule children_od_set_same)
      have b: "children (OrderedDict items) (t # ps) = children (child_or_empty items t) ps"
        by (rule children_Cons)
      have c: "children c' ps =
        (if extends ps key' then add_child (children (child_or_empty items t) ps) (key' ! length ps)
         else children (child_or_empty items t) ps)"
        using assms unfolding updated_children_def by blast
      show ?thesis
        unfolding Cons True a b c by (simp add: extends_Cons)
    next
      case False
      then show ?thesis by (simp add: Cons children_od_set_other extends_Cons)
    qed
  qed
qed

lemma updated_children_leaf:
  assumes "shaped 0 (child_or_empty items t) \<or> map_of items t = None"
  shows "updated_children (OrderedDict items) (OrderedDict (od_set items t (LastParam v))) [t]"
proof -
  have "\<And>p. children (child_or_empty items t) p = []"
  proof -
    fix p
    show "children (child_or_empty items t) p = []"
    proof (cases "map_of items t")
      case None
      then show ?thesis by (simp add: child_or_empty_def)
    next
      case (Some c)
      then have "shaped 0 c" using assms by (auto simp: child_or_empty_def)
      then obtain v0 where "c = LastParam v0" by (cases c) auto
      then show ?thesis using Some by (simp add: child_or_empty_def)
    qed
  qed
  then have "updated_children (child_or_empty items t) (LastParam v) []"
    by (simp add: updated_children_def extends_def)
  from updated_children_lift[OF this] show ?thesis .
qed

lemma loop_children:
  assumes "shaped (Suc n) d" "n + 2 \<le> length toks" "AddFunctionToChangesDict_loop n toks d = Inr d'"
  shows "updated_children d d' (take (Suc n) toks)"
  using assms
proof (induction n arbitrary: toks d d')
  case 0
  then obtain t v extra where toks: "toks = t # v # extra"
    by (cases toks; cases "tl toks") auto
  obtain items where d: "d = OrderedDict items" using 0(1) by (cases d) auto
  have leaf: "list_all (\<lambda>item. shaped 0 (snd item)) items" using 0(1) d by auto
  have "shaped 0 (child_or_empty items t) \<or> map_of items t = None"
  proof (cases "map_of items t")
    case None then show ?thesis by simp
  next
    case (Some c)
    then have "(t, c) \<in> set items" by (rule map_of_SomeD)
    then show ?thesis using leaf Some by (auto simp: list_all_iff child_or_empty_def)
  qed
  from updated_children_leaf[OF this, of v] show ?case using 0(3) by (simp add: toks d)
next
  case (Suc n)
  then obtain t rest where toks: "toks = t # rest" by (cases toks) auto
  obtain items where d: "d = OrderedDict items" using Suc(2) by (cases d) auto
  have sh: "list_all (\<lambda>item. shaped (Suc n) (snd item)) items" using Suc(2) d by auto
  have shc: "shaped (Suc n) (child_or_empty items t)" by (rule shaped_child_or_empty[OF sh])
  have len: "n + 2 \<le> length rest" using Suc(3) toks by simp
  obtain c' where c': "AddFunctionToChangesDict_loop n rest (child_or_empty items t) = Inr c'"
      and d': "d' = OrderedDict (od_set items t c')"
    using Suc(4) by (auto simp: toks d child_or_empty_def split: sum.splits)
  have "updated_children (child_or_empty items t) c' (take (Suc n) rest)"
    using Suc.IH[OF shc len c'] .
  from updated_children_lift[OF this] show ?case by (simp add: toks d d')
qed

lemma add_children:
  assumes rs: "root_shaped d" and add: "AddFunctionToChangesDict toks d = Inr d'"
  shows "updated_children d d' (cmd_key toks)"
proof -
  have wf: "well_formed toks" by (rule add_well_formed[OF add])
  obtain items where d: "d = OrderedDict items" using rs by (cases d) (auto simp: root_shaped_def)
  obtain name rest where toks: "toks = name # rest" using wf by (cases toks) (auto simp: well_formed_def)
  obtain k where k: "lookup_NumParamsForMatch name = Inr k" and len: "k + 2 \<le> length toks"
    using wf toks by (cases "lookup_NumParamsForMatch name") (auto simp: well_formed_def)
  have key: "cmd_key toks = take (Suc k) toks"
    using toks k by (simp_all add: cmd_key_def match_arity_def)
  have ch: "shaped k (child_or_empty items name) \<or> map_of items name = None"
    using root_child[of items name k] rs d k by simp
  have loop: "AddFunctionToChangesDict_loop k toks d = Inr d'"
    using add by (simp add: AddFunctionToChangesDict_def d toks k)
  show ?thesis
  proof (cases k)
    case 0
    then obtain v extra where rest: "rest = v # extra" using len toks by (cases rest) auto
    have k1: "cmd_key toks = [name]" using key 0 toks by simp
    have "d' = OrderedDict (od_set items name (LastParam v))"
      using loop 0 by (simp add: toks rest d)
    then show ?thesis
      using updated_children_leaf[of items name v] ch 0 
      by (simp add: k1 d)
  next
    case (Suc m)
    have shc: "shaped (Suc m) (child_or_empty items name)"
      using ch Suc by (auto simp: child_or_empty_def)
    have len': "m + 2 \<le> length rest" using len toks Suc by simp
    obtain c' where c': "AddFunctionToChangesDict_loop m rest (child_or_empty items name) = Inr c'"
      and d': "d' = OrderedDict (od_set items name c')"
      using loop by (auto simp: toks d Suc child_or_empty_def split: sum.splits)
    have uc: "updated_children (child_or_empty items name) c' (take (Suc m) rest)"
      by (rule loop_children[OF shc len' c'])
    have k2: "cmd_key toks = name # take (Suc m) rest" using key Suc toks by simp
    from updated_children_lift[OF uc] show ?thesis by (simp add: k2 d d')
  qed
qed

lemma AddAll_children:
  "AddAll cmds (OrderedDict []) = Inr d \<Longrightarrow> children d p = insertion_order (next_tokens cmds p)"
proof (induction cmds arbitrary: d p rule: rev_induct)
  case Nil
  then show ?case by (auto simp: insertion_order_def next_tokens_def)
next
  case (snoc c cmds)
  then obtain d0 where d0: "AddAll cmds (OrderedDict []) = Inr d0" "AddFunctionToChangesDict c d0 = Inr d"
    by (auto simp: AddAll_snoc split: sum.splits)
  have rs: "root_shaped d0" using AddAll_keys_ok_gen[OF d0(1)] by simp
  have "updated_children d0 d (cmd_key c)" by (rule add_children[OF rs d0(2)])
  then have "children d p = (if extends p (cmd_key c) then add_child (children d0 p) (cmd_key c ! length p)
       else children d0 p)"
    by (simp add: updated_children_def)
  then show ?case
    using snoc.IH[OF d0(1), of p]
    by (simp add: next_tokens_def insertion_order_snoc)
qed

declare spec_node.simps(2) [simp del]

lemma set_insertion_order [simp]: "set (insertion_order xs) = set xs"
  by (induction xs rule: rev_induct) (auto simp: insertion_order_snoc add_child_def insertion_order_def)

lemma distinct_insertion_order [simp]: "distinct (insertion_order xs)"
  by (induction xs rule: rev_induct) (auto simp: insertion_order_snoc add_child_def insertion_order_def)

lemma spec_node_Nil: "spec_node (Suc n) [] = OrderedDict []"
  by (simp add: spec_node.simps(2) insertion_order_def)

lemma insertion_order_Nil [simp]: "insertion_order [] = []"
  by (simp add: insertion_order_def)

lemma lines_spec_node: "lines (spec_node n cs) = compact_node n cs"
  by (induction n arbitrary: cs) (simp_all add: lines_OrderedDict comp_def spec_node.simps)

lemma lines_spec_root: "lines (spec_root cmds) = compact cmds"
  by (simp add: spec_root_def compact_def lines_OrderedDict comp_def lines_spec_node)

lemma od_set_map:
  assumes "distinct ks"
  shows "od_set (map (\<lambda>t'. (t', g t')) ks) t v =
         map (\<lambda>t'. (t', if t' = t then v else g t')) (add_child ks t)"
  using assms
proof (induction ks)
  case Nil
  then show ?case by (simp add: add_child_def)
next
  case (Cons k ks)
  show ?case
  proof (cases "k = t")
    case True
    then have "t \<notin> set ks" using Cons.prems by auto
    then have "map (\<lambda>t'. (t', g t')) ks = map (\<lambda>t'. (t', if t' = t then v else g t')) ks"
      by (intro map_cong) auto
    then show ?thesis using True by (simp add: add_child_def)
  next
    case False
    then show ?thesis using Cons by (auto simp: add_child_def)
  qed
qed

lemma map_of_map_key:
  "map_of (map (\<lambda>t'. (t', g t')) ks) t = (if t \<in> set ks then Some (g t) else None)"
  by (induction ks) auto

lemma child_spec:
  "child_or_empty (map (\<lambda>t'. (t', spec_node (Suc m) (f t'))) ks) t =
     (if t \<in> set ks then spec_node (Suc m) (f t) else OrderedDict [])"
  by (simp add: child_or_empty_def map_of_map_key)

lemma filter_hd_notin: "t \<notin> hd ` set cs \<Longrightarrow> filter (\<lambda>c. hd c = t) cs = []"
  by (induction cs) auto

lemma loop_spec:
  assumes "n + 2 \<le> length c"
  shows "AddFunctionToChangesDict_loop n c (spec_node (Suc n) cs) = Inr (spec_node (Suc n) (cs @ [c]))"
  using assms
proof (induction n arbitrary: c cs)
  case 0
  then obtain t v extra where c: "c = t # v # extra" by (cases c; cases "tl c") auto
  let ?g = "\<lambda>t'. spec_node 0 (map tl (filter (\<lambda>c. hd c = t') cs))"
  have "od_set (map (\<lambda>t'. (t', ?g t')) (insertion_order (map hd cs))) t (LastParam v) =
        map (\<lambda>t'. (t', if t' = t then LastParam v else ?g t')) (add_child (insertion_order (map hd cs)) t)"
    by (rule od_set_map) simp
  also have "\<dots> = map (\<lambda>t'. (t', spec_node 0 (map tl (filter (\<lambda>c. hd c = t') (cs @ [c])))))
                   (insertion_order (map hd (cs @ [c])))"
    by (simp add: insertion_order_snoc c)
  finally show ?case by (simp add: c spec_node.simps)
next
  case (Suc n)
  then obtain t rest where c: "c = t # rest" by (cases c) auto
  have len: "n + 2 \<le> length rest" using Suc.prems c by simp
  let ?f = "\<lambda>t'. map tl (filter (\<lambda>c. hd c = t') cs)"
  let ?ks = "insertion_order (map hd cs)"
  let ?items = "map (\<lambda>t'. (t', spec_node (Suc n) (?f t'))) ?ks"
  have child: "child_or_empty ?items t = spec_node (Suc n) (?f t)"
  proof (cases "t \<in> set ?ks")
    case True
    then show ?thesis by (simp add: child_spec)
  next
    case False
    then have "?f t = []" by (simp add: filter_hd_notin)
    then show ?thesis using False by (simp add: child_spec spec_node_Nil)
  qed
  have sub: "AddFunctionToChangesDict_loop n rest (child_or_empty ?items t) = Inr (spec_node (Suc n) (?f t @ [rest]))"
    unfolding child by (rule Suc.IH[OF len])
  have "od_set ?items t (spec_node (Suc n) (?f t @ [rest])) =
        map (\<lambda>t'. (t', if t' = t then spec_node (Suc n) (?f t @ [rest]) else spec_node (Suc n) (?f t')))
          (add_child ?ks t)"
    by (rule od_set_map) simp
  also have "\<dots> = map (\<lambda>t'. (t', spec_node (Suc n) (map tl (filter (\<lambda>c. hd c = t') (cs @ [c])))))
                   (insertion_order (map hd (cs @ [c])))"
    by (simp add: insertion_order_snoc c)
  finally have upd: "od_set ?items t (spec_node (Suc n) (?f t @ [rest])) =
     map (\<lambda>t'. (t', spec_node (Suc n) (map tl (filter (\<lambda>c. hd c = t') (cs @ [c])))))
                   (insertion_order (map hd (cs @ [c])))" .
  have "AddFunctionToChangesDict_loop (Suc n) c (spec_node (Suc (Suc n)) cs) =
        Inr (OrderedDict (od_set ?items t (spec_node (Suc n) (?f t @ [rest]))))"
    using sub by (simp add: c child_or_empty_def spec_node.simps(2)[of "Suc n"])
  then show ?case by (simp add: upd spec_node.simps(2)[of "Suc n"])
qed

lemma add_spec:
  assumes wf: "well_formed c"
  shows "AddFunctionToChangesDict c (spec_root cmds) = Inr (spec_root (cmds @ [c]))"
proof -
  obtain name rest where c: "c = name # rest" using wf by (cases c) (auto simp: well_formed_def)
  obtain k where k: "lookup_NumParamsForMatch name = Inr k" and len: "k + 2 \<le> length c"
    using wf c by (cases "lookup_NumParamsForMatch name") (auto simp: well_formed_def)
  have ma: "match_arity name = k" using k by (simp add: match_arity_def)
  let ?f = "\<lambda>n. map tl (filter (\<lambda>c. hd c = n) cmds)"
  let ?g = "\<lambda>n. spec_node (match_arity n) (?f n)"
  let ?ks = "insertion_order (map hd cmds)"
  let ?items = "map (\<lambda>n. (n, ?g n)) ?ks"
  let ?new = "spec_node k (?f name @ [rest])"
  have loop: "AddFunctionToChangesDict_loop k c (OrderedDict ?items) = Inr (OrderedDict (od_set ?items name ?new))"
  proof (cases k)
    case 0
    then obtain v extra where rest: "rest = v # extra" using len c by (cases rest) auto
    show ?thesis by (simp add: 0 c rest)
  next
    case (Suc m)
    have len': "m + 2 \<le> length rest" using len c Suc by simp
    have child: "child_or_empty ?items name = spec_node (Suc m) (?f name)"
    proof (cases "name \<in> set ?ks")
      case True
      then show ?thesis by (simp add: child_or_empty_def map_of_map_key ma Suc)
    next
      case False
      then have "?f name = []" by (simp add: filter_hd_notin)
      then show ?thesis using False by (simp add: child_or_empty_def map_of_map_key spec_node_Nil)
    qed
    have "AddFunctionToChangesDict_loop m rest (child_or_empty ?items name) = Inr (spec_node (Suc m) (?f name @ [rest]))"
      unfolding child by (rule loop_spec[OF len'])
    then show ?thesis by (simp add: c Suc child_or_empty_def)
  qed
  have "od_set ?items name ?new =
        map (\<lambda>n. (n, if n = name then ?new else ?g n)) (add_child ?ks name)"
    by (rule od_set_map) simp
  also have "\<dots> = map (\<lambda>n. (n, spec_node (match_arity n) (map tl (filter (\<lambda>c. hd c = n) (cmds @ [c])))))
                   (insertion_order (map hd (cmds @ [c])))"
    by (simp add: insertion_order_snoc c ma)
  finally have "od_set ?items name ?new =
     map (\<lambda>n. (n, spec_node (match_arity n) (map tl (filter (\<lambda>c. hd c = n) (cmds @ [c])))))
                   (insertion_order (map hd (cmds @ [c])))" .
  then show ?thesis using loop by (simp add: AddFunctionToChangesDict_def spec_root_def c k)
qed

lemma AddAll_spec:
  "AddAll cmds (OrderedDict []) = Inr d \<Longrightarrow> d = spec_root cmds"
proof (induction cmds arbitrary: d rule: rev_induct)
  case Nil
  then show ?case by (auto simp: spec_root_def)
next
  case (snoc c cmds)
  then obtain d0 where d0: "AddAll cmds (OrderedDict []) = Inr d0" "AddFunctionToChangesDict c d0 = Inr d"
    by (auto simp: AddAll_snoc split: sum.splits)
  have "d0 = spec_root cmds" using snoc.IH d0(1) by simp
  then show ?case using add_spec[OF add_well_formed[OF d0(2)], of cmds] d0(2) by simp
qed

lemma AddAll_prefix:
  "AddAll (xs @ ys) d = Inr d' \<Longrightarrow> \<exists>d0. AddAll xs d = Inr d0 \<and> AddAll ys d0 = Inr d'"
  by (auto simp: AddAll_append split: sum.splits)

lemma AddAll_subseq:
  "root_shaped d0 \<Longrightarrow> AddAll ys d0 = Inr d \<Longrightarrow> subseq (map butlast (lines d0)) (map butlast (lines d))"
proof (induction ys arbitrary: d0)
  case Nil
  then show ?case by simp
next
  case (Cons c ys)
  then obtain d1 where d1: "AddFunctionToChangesDict c d0 = Inr d1" "AddAll ys d1 = Inr d"
    by (auto split: sum.splits)
  have s: "root_shaped d1 \<and> updated_lines (lines d0) (lines d1) (cmd_key c) (cmd_value c)"
    by (rule add_step[OF Cons.prems(1) d1(1)])
  then have "subseq (map butlast (lines d0)) (map butlast (lines d1))"
    using updated_subseq by blast
  moreover have "subseq (map butlast (lines d1)) (map butlast (lines d))"
    using Cons.IH s d1(2) by blast
  ultimately show ?case by (rule subseq_order.order_trans)
qed

lemma filter_distinct_map:
  assumes "distinct (map f xs)" "x \<in> set xs"
  shows "filter (\<lambda>y. f y = f x) xs = [x]"
  using assms
proof (induction xs)
  case Nil
  then show ?case by simp
next
  case (Cons a xs)
  show ?case
  proof (cases "a = x")
    case True
    have "f x \<notin> f ` set xs" using Cons.prems(1) True by simp
    then have "filter (\<lambda>y. f y = f x) xs = []"
      unfolding filter_empty_conv by (metis imageI)
    then show ?thesis using True by simp
  next
    case False
    then have "x \<in> set xs" using Cons.prems by simp
    moreover have "f a \<noteq> f x" using Cons.prems(1) calculation by auto
    ultimately show ?thesis using Cons by simp
  qed
qed

lemma updated_replace:
  assumes up: "updated_lines before after key v" and mem: "key \<in> butlast ` set before"
  shows "after = map (\<lambda>l. if butlast l = key then key @ [v] else l) before"
proof -
  obtain pre old post where b: "before = pre @ old @ post" and a: "after = pre @ [key @ [v]] @ post"
    and o: "old = [] \<or> (\<exists>v0. old = [key @ [v0]])" and n: "key \<notin> butlast ` set (pre @ post)"
    using up unfolding updated_lines_def by blast
  have "old \<noteq> []"
  proof
    assume "old = []"
    then have "before = pre @ post" using b by simp
    then show False using mem n by simp
  qed
  then obtain v0 where old: "old = [key @ [v0]]" using o by blast
  have id: "\<And>ls. key \<notin> butlast ` set ls \<Longrightarrow> map (\<lambda>l. if butlast l = key then key @ [v] else l) ls = ls"
    by (rule map_idI) (metis imageI)
  have "key \<notin> butlast ` set pre" "key \<notin> butlast ` set post" using n by auto
  then show ?thesis using id by (simp add: a b old)
qed

lemma next_token_present:
  assumes "key \<in> cmd_key ` set cmds" "extends p key"
  shows "key ! length p \<in> set (next_tokens cmds p)"
  using assms by (auto simp: next_tokens_def)

lemma scenario_AddAll: "AddAll scenario (OrderedDict []) = Inr scenario_dict"
  by code_simp

lemma scenario_lines:
  "lines scenario_dict =
     [[''set_currency_to_tier'', ''Chaos Orb'', ''4''],
      [''set_currency_to_tier'', ''Chromatic Orb'', ''5''],
      [''set_hide_maps_below_tier'', ''14'']]"
  by (simp add: scenario_dict_def lines_def)

text \<open>
  C1. When a sequence of commands has been folded into the dictionary: for every command,
  the flattened list holds exactly one line with the key of that command, and the line
  carries the value of the last command with that key; there are as many lines as distinct
  keys; the flattened list is the depth-first listing \<open>compact\<close> of the commands, each
  level in the order of first insertion; and the keys of the lines after any beginning of
  the sequence keep their relative places in the final list, so that the place of a line
  is fixed when its key is first inserted.
\<close>

theorem compaction:
  assumes "AddAll cmds (OrderedDict []) = Inr d"
  shows "list_all (\<lambda>c. filter (\<lambda>l. butlast l = cmd_key c) (lines d)
                        = [cmd_key c @ [final_value cmds (cmd_key c)]]) cmds \<and>
         length (lines d) = card (cmd_key ` set cmds) \<and>
         lines d = compact cmds \<and>
         (\<forall>before after d0. cmds = before @ after \<longrightarrow>
            AddAll before (OrderedDict []) = Inr d0 \<longrightarrow>
            subseq (map butlast (lines d0)) (map butlast (lines d)))"
proof -
  have ok: "keys_ok cmds (lines d)" using AddAll_keys_ok_gen[OF assms] by simp
  have 1: "list_all (\<lambda>c. filter (\<lambda>l. butlast l = cmd_key c) (lines d)
                        = [cmd_key c @ [final_value cmds (cmd_key c)]]) cmds"
    unfolding list_all_iff
  proof
    fix c assume "c \<in> set cmds"
    then have "cmd_key c \<in> set (map butlast (lines d))" using ok by (simp add: keys_ok_def)
    then obtain l where l: "l \<in> set (lines d)" "butlast l = cmd_key c" by auto
    have "l = cmd_key c @ [final_value cmds (cmd_key c)]"
      using ok l by (auto simp: keys_ok_def list_all_iff)
    moreover have "filter (\<lambda>y. butlast y = butlast l) (lines d) = [l]"
      using ok l(1) by (intro filter_distinct_map) (simp_all add: keys_ok_def)
    ultimately show "filter (\<lambda>l. butlast l = cmd_key c) (lines d) = [cmd_key c @ [final_value cmds (cmd_key c)]]"
      using l(2) by simp
  qed
  have dk: "distinct (map butlast (lines d))" using ok by (simp add: keys_ok_def)
  have "card (set (map butlast (lines d))) = length (map butlast (lines d))"
    by (rule distinct_card[OF dk])
  then have 2: "length (lines d) = card (cmd_key ` set cmds)" using ok by (simp add: keys_ok_def)
  have 3: "lines d = compact cmds" using AddAll_spec[OF assms] by (simp add: lines_spec_root)
  have 4: "subseq (map butlast (lines d0)) (map butlast (lines d))"
    if "cmds = before @ after" "AddAll before (OrderedDict []) = Inr d0" for before after d0
  proof -
    have "AddAll after d0 = Inr d" using assms that by (simp add: AddAll_append)
    moreover have "root_shaped d0" using AddAll_keys_ok_gen[OF that(2)] by simp
    ultimately show ?thesis by (rule AddAll_subseq[rotated])
  qed
  show ?thesis using 1 2 3 4 by blast
qed

theorem compaction_witness:
  "AddAll scenario (OrderedDict []) = Inr scenario_dict \<and>
   lines scenario_dict =
     [[''set_currency_to_tier'', ''Chaos Orb'', ''4''],
      [''set_currency_to_tier'', ''Chromatic Orb'', ''5''],
      [''set_hide_maps_below_tier'', ''14'']] \<and>
   compact scenario =
     [[''set_currency_to_tier'', ''Chaos Orb'', ''4''],
      [''set_currency_to_tier'', ''Chromatic Orb'', ''5''],
      [''set_hide_maps_below_tier'', ''14'']] \<and>
   length (lines scenario_dict) = card (cmd_key ` set scenario)"
proof -
  note c = compaction [OF scenario_AddAll]
  have a: "lines scenario_dict = compact scenario" using c by blast
  have b: "length (lines scenario_dict) = card (cmd_key ` set scenario)" using c by blast
  have "compact scenario =
     [[''set_currency_to_tier'', ''Chaos Orb'', ''4''],
      [''set_currency_to_tier'', ''Chromatic Orb'', ''5''],
      [''set_hide_maps_below_tier'', ''14'']]"
    using a scenario_lines by (rule trans [OF sym])
  then show ?thesis using scenario_AddAll scenario_lines b by (intro conjI)
qed

text \<open>
  C2. Every dictionary reached from the empty one by calls of
  \<^verbatim>\<open>AddFunctionToChangesDict\<close> has exactly one line, that is one leaf, per key of the
  commands; at every level the keys are in the order of their first insertion; and a call
  for a key that is already there leaves the keys of every level where they are, and
  changes the value of that key's line only.
\<close>

theorem changes_dict_invariants:
  assumes "AddAll cmds (OrderedDict []) = Inr d"
  shows "distinct (map butlast (lines d)) \<and>
         set (map butlast (lines d)) = cmd_key ` set cmds \<and>
         (\<forall>p. children d p = insertion_order (next_tokens cmds p)) \<and>
         (\<forall>c d'. cmd_key c \<in> cmd_key ` set cmds \<longrightarrow> AddFunctionToChangesDict c d = Inr d' \<longrightarrow>
            (\<forall>p. children d' p = children d p) \<and>
            lines d' = map (\<lambda>l. if butlast l = cmd_key c then cmd_key c @ [cmd_value c] else l)
                         (lines d))"
proof -
  have rs: "root_shaped d" and ok: "keys_ok cmds (lines d)"
    using AddAll_keys_ok_gen[OF assms] by simp_all
  have ch: "\<And>p. children d p = insertion_order (next_tokens cmds p)"
    by (rule AddAll_children[OF assms])
  have over: "(\<forall>p. children d' p = children d p) \<and>
            lines d' = map (\<lambda>l. if butlast l = cmd_key c then cmd_key c @ [cmd_value c] else l)
                         (lines d)"
    if mem: "cmd_key c \<in> cmd_key ` set cmds" and add: "AddFunctionToChangesDict c d = Inr d'"
    for c d'
  proof
    have uc: "updated_children d d' (cmd_key c)" by (rule add_children[OF rs add])
    show "\<forall>p. children d' p = children d p"
    proof
      fix p
      show "children d' p = children d p"
      proof (cases "extends p (cmd_key c)")
        case True
        then have "cmd_key c ! length p \<in> set (children d p)"
          using next_token_present[OF mem] by (simp add: ch)
        then show ?thesis using uc True by (simp add: updated_children_def add_child_def)
      next
        case False
        then show ?thesis using uc by (simp add: updated_children_def)
      qed
    qed
    have ul: "updated_lines (lines d) (lines d') (cmd_key c) (cmd_value c)"
      using add_step[OF rs add] by simp
    have "cmd_key c \<in> butlast ` set (lines d)" using ok mem by (simp add: keys_ok_def)
    then show "lines d' = map (\<lambda>l. if butlast l = cmd_key c then cmd_key c @ [cmd_value c] else l) (lines d)"
      by (rule updated_replace[OF ul])
  qed
  show ?thesis using ok ch over by (simp add: keys_ok_def)
qed

theorem changes_dict_invariants_witness:
  "AddAll scenario (OrderedDict []) = Inr scenario_dict \<and>
   distinct (map butlast (lines scenario_dict)) \<and>
   children scenario_dict [''set_currency_to_tier''] =
     insertion_order (next_tokens scenario [''set_currency_to_tier'']) \<and>
   children scenario_dict [''set_currency_to_tier''] = [''Chaos Orb'', ''Chromatic Orb'']"
proof -
  have c: "children scenario_dict [''set_currency_to_tier''] = [''Chaos Orb'', ''Chromatic Orb'']"
    by (simp add: scenario_dict_def children_def)
  show ?thesis
    using changes_dict_invariants [OF scenario_AddAll] scenario_AddAll c by simp
qed


section \<open>Quoting and tokenizing: the round trip\<close>

lemma read_word_plain:
  "list_all plain s \<Longrightarrow> read_token InWord tok quoted s = Inr (emit (tok @ s) quoted)"
  by (induction s arbitrary: tok) (auto simp: plain_def)

lemma double_backslash_skip:
  "d \<noteq> backslash \<Longrightarrow> double_backslash (d # s) = double_backslash s"
  by (cases s) auto

lemma kept_in_quotes_iff:
  "kept_in_quotes s \<longleftrightarrow>
     dquote \<notin> set s \<and> \<not> double_backslash s \<and> (s = [] \<or> last s \<noteq> backslash)"
proof (induction s rule: kept_in_quotes.induct)
  case 1
  then show ?case by simp
next
  case (2 c)
  then show ?case by auto
next
  case (3 c d s)
  show ?case
  proof (cases "c = backslash")
    case True
    show ?thesis
    proof (cases "d = backslash \<or> d = dquote")
      case True
      then show ?thesis using \<open>c = backslash\<close> by auto
    next
      case False
      then have "double_backslash (d # s) = double_backslash s"
        by (simp add: double_backslash_skip)
      then show ?thesis using True False 3(1)
        by (auto simp: dquote_def backslash_def)
    qed
  next
    case False
    then show ?thesis using 3(2) by auto
  qed
qed

lemma emit_length: "length (concat (emit tok quoted)) \<le> length tok"
  by (simp add: emit_def)

lemma read_token_length:
  "read_token st tok quoted cs = Inr toks \<Longrightarrow>
   length (concat toks) + slack st cs \<le> length tok + length cs"
proof (induction st tok quoted cs arbitrary: toks rule: read_token.induct)
  case (1 tok quoted)
  then show ?case using emit_length[of tok quoted] by auto
next
  case (2 tok quoted c cs)
  show ?case
  proof (cases "c \<in> shlex_whitespace")
    case True
    then have np: "\<not> plain c" by (simp add: plain_def)
    show ?thesis
    proof (cases "tok \<noteq> [] \<or> quoted")
      case True
      then obtain toks' where t: "read_token InWhitespace [] False cs = Inr toks'" "toks = tok # toks'"
        using "2.prems" \<open>c \<in> shlex_whitespace\<close>
        by (auto simp: cons_token_def split: sum.splits)
      show ?thesis using "2.IH"(1)[OF \<open>c \<in> shlex_whitespace\<close> True t(1)] t(2) np by simp
    next
      case False
      then show ?thesis using "2.IH"(2)[OF \<open>c \<in> shlex_whitespace\<close> False] "2.prems" True np by simp
    qed
  next
    case False
    note nw = False
    show ?thesis
    proof (cases "c = backslash")
      case True
      then have np: "\<not> plain c" by (simp add: plain_def)
      show ?thesis using "2.IH"(3)[OF nw True] "2.prems" nw True np by simp
    next
      case False
      note nb = False
      show ?thesis
      proof (cases "c \<in> shlex_quotes")
        case True
        then have np: "\<not> plain c" by (simp add: plain_def)
        show ?thesis using "2.IH"(4)[OF nw nb True] "2.prems" nw nb True np by simp
      next
        case False
        then have pl: "plain c" using nw nb by (simp add: plain_def)
        show ?thesis using "2.IH"(5)[OF nw nb False] "2.prems" nw nb False pl by simp
      qed
    qed
  qed
next
  case (3 q tok quoted)
  then show ?case by simp
next
  case (4 q tok quoted c cs)
  then show ?case by (auto split: if_splits)
next
  case (5 esc tok quoted)
  then show ?case by simp
next
  case (6 esc tok quoted c cs)
  show ?case
  proof (cases esc)
    case None
    then show ?thesis using "6.IH"(1)[OF None, of toks] "6.prems" by simp
  next
    case (Some q)
    let ?tok = "(if c \<noteq> backslash \<and> c \<noteq> q then tok @ [backslash] else tok) @ [c]"
    have "read_token (InQuotes q) ?tok quoted cs = Inr toks" using "6.prems" Some by simp
    from "6.IH"(2)[OF Some this] have "length (concat toks) + 1 \<le> length ?tok + length cs"
      by simp
    moreover have "length ?tok \<le> length tok + 2" by simp
    ultimately show ?thesis using Some by simp
  qed
next
  case (7 tok quoted)
  then show ?case using emit_length[of tok quoted] by auto
next
  case (8 tok quoted c cs)
  show ?case
  proof (cases "c \<in> shlex_whitespace")
    case True
    then have np: "\<not> plain c" by (simp add: plain_def)
    show ?thesis
    proof (cases "tok \<noteq> [] \<or> quoted")
      case True
      then obtain toks' where t: "read_token InWhitespace [] False cs = Inr toks'" "toks = tok # toks'"
        using "8.prems" \<open>c \<in> shlex_whitespace\<close>
        by (auto simp: cons_token_def split: sum.splits)
      show ?thesis using "8.IH"(1)[OF \<open>c \<in> shlex_whitespace\<close> True t(1)] t(2) np by simp
    next
      case False
      then show ?thesis using "8.IH"(2)[OF \<open>c \<in> shlex_whitespace\<close> False] "8.prems" True np by simp
    qed
  next
    case False
    note nw = False
    show ?thesis
    proof (cases "c \<in> shlex_quotes")
      case True
      then have np: "\<not> plain c" by (simp add: plain_def)
      show ?thesis using "8.IH"(3)[OF nw True] "8.prems" nw True np by simp
    next
      case False
      note nq = False
      show ?thesis
      proof (cases "c = backslash")
        case True
        then have np: "\<not> plain c" by (simp add: plain_def)
        show ?thesis using "8.IH"(4)[OF nw nq True] "8.prems" nw nq True np by simp
      next
        case False
        then have pl: "plain c" using nw nq by (simp add: plain_def)
        show ?thesis using "8.IH"(5)[OF nw nq False] "8.prems" nw nq False pl by simp
      qed
    qed
  qed
qed

lemma read_kept:
  "kept_in_quotes s \<Longrightarrow>
   read_token (InQuotes dquote) tok quoted (s @ dquote # rest) = read_token InWord (tok @ s) True rest"
proof (induction s arbitrary: tok quoted rule: kept_in_quotes.induct)
  case 1
  then show ?case by simp
next
  case (2 c)
  then show ?case by simp
next
  case (3 c d s)
  show ?case
  proof (cases "c = backslash")
    case True
    then have d: "d \<noteq> backslash" "d \<noteq> dquote" "kept_in_quotes s" using 3(3) by simp_all
    have "read_token (InQuotes dquote) tok quoted ((c # d # s) @ dquote # rest) =
          read_token (InQuotes dquote) (tok @ [backslash, d]) True (s @ dquote # rest)"
      using True d by (simp add: dquote_def backslash_def)
    also have "\<dots> = read_token InWord ((tok @ [backslash, d]) @ s) True rest"
      by (rule 3(1)[OF True d(3)])
    finally show ?thesis using True by simp
  next
    case False
    then have c: "c \<noteq> dquote" "kept_in_quotes (d # s)" using 3(3) by simp_all
    have "read_token (InQuotes dquote) tok quoted ((c # d # s) @ dquote # rest) =
          read_token (InQuotes dquote) (tok @ [c]) True ((d # s) @ dquote # rest)"
      using False c by simp
    also have "\<dots> = read_token InWord ((tok @ [c]) @ d # s) True rest"
      by (rule 3(2)[OF False c(2)])
    finally show ?thesis by simp
  qed
qed

lemma dquote_not_plain: "\<not> plain dquote"
  by (simp add: plain_def shlex_quotes_def)

lemma read_not_kept:
  "\<not> kept_in_quotes s \<Longrightarrow>
   read_token (InQuotes dquote) tok quoted (s @ [dquote]) = Inr toks \<Longrightarrow>
   length (concat toks) < length tok + length s"
proof (induction s arbitrary: tok quoted rule: kept_in_quotes.induct)
  case 1
  then show ?case by simp
next
  case (2 c)
  then show ?case by (auto simp: dquote_def backslash_def shlex_whitespace_def shlex_quotes_def
        space_def squote_def split: if_splits)
next
  case (3 c d s)
  show ?case
  proof (cases "c = dquote")
    case True
    then have "read_token InWord tok True (d # s @ [dquote]) = Inr toks" using 3(4) by simp
    from read_token_length[OF this] show ?thesis by (simp add: dquote_not_plain)
  next
    case False
    note nq = False
    show ?thesis
    proof (cases "c = backslash")
      case True
      show ?thesis
      proof (cases "d = backslash \<or> d = dquote")
        case True
        then have "read_token (InQuotes dquote) (tok @ [d]) True (s @ [dquote]) = Inr toks"
          using 3(4) \<open>c = backslash\<close> by (auto simp: dquote_def backslash_def)
        from read_token_length[OF this] show ?thesis by simp
      next
        case False
        then have r: "read_token (InQuotes dquote) (tok @ [backslash, d]) True (s @ [dquote]) = Inr toks"
          using 3(4) \<open>c = backslash\<close> by (auto simp: dquote_def backslash_def)
        have "\<not> kept_in_quotes s" using 3(3) True False by simp
        from 3(1)[OF True this r] show ?thesis by simp
      qed
    next
      case False
      then have r: "read_token (InQuotes dquote) (tok @ [c]) True ((d # s) @ [dquote]) = Inr toks"
        using 3(4) nq by simp
      have "\<not> kept_in_quotes (d # s)" using 3(3) False nq by simp
      from 3(2)[OF False this r] show ?thesis by simp
    qed
  qed
qed

lemma split_quoted:
  "shlex_split ([dquote] @ s @ [dquote]) = Inr [s] \<longleftrightarrow> kept_in_quotes s"
proof -
  have start: "shlex_split ([dquote] @ s @ [dquote]) =
        read_token (InQuotes dquote) [] False (s @ [dquote])"
    by (simp add: shlex_split_def shlex_whitespace_def shlex_quotes_def dquote_def squote_def
        backslash_def space_def)
  show ?thesis
  proof
    assume a: "shlex_split ([dquote] @ s @ [dquote]) = Inr [s]"
    show "kept_in_quotes s"
    proof (rule ccontr)
      assume "\<not> kept_in_quotes s"
      from read_not_kept[OF this a[unfolded start]] show False by simp
    qed
  next
    assume "kept_in_quotes s"
    from read_kept[OF this, of "[]" False "[]"] show "shlex_split ([dquote] @ s @ [dquote]) = Inr [s]"
      unfolding start by (simp add: emit_def)
  qed
qed

lemma split_bare:
  "shlex_split s = Inr [s] \<longleftrightarrow> s \<noteq> [] \<and> list_all plain s"
proof
  assume a: "shlex_split s = Inr [s]"
  then have "s \<noteq> []" by (auto simp: shlex_split_def emit_def)
  moreover have "list_all plain s"
    using read_token_length[OF a[unfolded shlex_split_def]] by (simp split: if_splits)
  ultimately show "s \<noteq> [] \<and> list_all plain s" by simp
next
  assume a: "s \<noteq> [] \<and> list_all plain s"
  then obtain c cs where s: "s = c # cs" by (cases s) auto
  have "plain c" "list_all plain cs" using a s by auto
  then show "shlex_split s = Inr [s]"
    unfolding s shlex_split_def by (simp add: read_word_plain emit_def plain_def)
qed

lemma plain_chars:
  "space \<notin> set s \<Longrightarrow> squote \<notin> set s \<Longrightarrow>
   list_all plain s \<longleftrightarrow>
     dquote \<notin> set s \<and> backslash \<notin> set s \<and>
     CHR 0x09 \<notin> set s \<and> CHR 0x0A \<notin> set s \<and> CHR 0x0D \<notin> set s"
  by (auto simp: list_all_iff plain_def shlex_whitespace_def shlex_quotes_def)

text \<open>
  C3, as amended. \<^verbatim>\<open>QuoteStringIfRequired\<close> wraps a string in double quotes exactly when it
  contains a space or a single quote, and returns it unchanged otherwise. Tokenizing the
  quoted form gives back exactly the string if and only if the string has no double quote
  and, when it is wrapped, no two backslashes side by side and no backslash at its end, and,
  when it is returned unchanged, is not empty and has no backslash, tab, line feed or
  carriage return.
\<close>

theorem quoting_round_trip:
  "(shlex_split (QuoteStringIfRequired s) = Inr [s] \<longleftrightarrow> round_trips s) \<and>
   QuoteStringIfRequired s =
     (if space \<in> set s \<or> squote \<in> set s then [dquote] @ s @ [dquote] else s)"
proof -
  have "shlex_split (QuoteStringIfRequired s) = Inr [s] \<longleftrightarrow> round_trips s"
  proof (cases "space \<in> set s \<or> squote \<in> set s")
    case True
    then have "s \<noteq> []" by auto
    then show ?thesis using True split_quoted[of s]
      by (simp add: QuoteStringIfRequired_def round_trips_def kept_in_quotes_iff)
  next
    case False
    then show ?thesis using split_bare[of s] plain_chars[of s]
      by (auto simp: QuoteStringIfRequired_def round_trips_def)
  qed
  then show ?thesis by (simp add: QuoteStringIfRequired_def)
qed

lemma backslash_inside_round_trips: "round_trips backslash_inside"
  by code_simp

theorem quoting_round_trip_witness:
  "round_trips backslash_inside \<and>
   shlex_split (QuoteStringIfRequired backslash_inside) = Inr [backslash_inside] \<and>
   QuoteStringIfRequired backslash_inside = [dquote] @ backslash_inside @ [dquote]"
proof -
  have sp: "space \<in> set backslash_inside" by code_simp
  note t = quoting_round_trip [of backslash_inside]
  have a: "shlex_split (QuoteStringIfRequired backslash_inside) = Inr [backslash_inside]"
    using t backslash_inside_round_trips by blast
  have b: "QuoteStringIfRequired backslash_inside = [dquote] @ backslash_inside @ [dquote]"
    using t sp by simp
  show ?thesis using backslash_inside_round_trips a b by (intro conjI)
qed

text \<open>
  The claim as stated fails on the empty string, which tokenizes to no token at all; without
  quotes, on a backslash, which the tokenizer takes as an escape, and on a tab, where it
  splits; between quotes, on two backslashes in a row, which come back as one, and on a
  backslash at the end, which escapes the closing quote.
\<close>

theorem quoting_round_trip_counterexample:
  "dquote \<notin> set [] \<and>
   shlex_split (QuoteStringIfRequired []) = Inr [] \<and>
   dquote \<notin> set [CHR ''a'', backslash, CHR ''b''] \<and>
   shlex_split (QuoteStringIfRequired [CHR ''a'', backslash, CHR ''b'']) = Inr [''ab''] \<and>
   dquote \<notin> set [CHR ''a'', CHR 0x09, CHR ''b''] \<and>
   shlex_split (QuoteStringIfRequired [CHR ''a'', CHR 0x09, CHR ''b'']) = Inr [''a'', ''b''] \<and>
   dquote \<notin> set [CHR ''a'', space, backslash, backslash, CHR ''b''] \<and>
   shlex_split (QuoteStringIfRequired [CHR ''a'', space, backslash, backslash, CHR ''b''])
     = Inr [[CHR ''a'', space, backslash, CHR ''b'']] \<and>
   dquote \<notin> set [CHR ''a'', space, backslash] \<and>
   shlex_split (QuoteStringIfRequired [CHR ''a'', space, backslash]) = Inl ValueError"
  by (simp add: QuoteStringIfRequired_def shlex_split_def emit_def dquote_def backslash_def
      space_def squote_def shlex_whitespace_def shlex_quotes_def cons_token_def)

section \<open>A malformed change log stops the update\<close>

lemma add_malformed:
  assumes "malformed line" "shlex_split (strip line) = Inr tokens"
  shows "\<exists>e. AddFunctionToChangesDict tokens d = Inl e"
proof (cases d)
  case (LastParam s)
  then show ?thesis by (simp add: AddFunctionToChangesDict_def)
next
  case (OrderedDict items)
  show ?thesis
  proof (cases tokens)
    case Nil
    then show ?thesis using OrderedDict by (simp add: AddFunctionToChangesDict_def)
  next
    case (Cons function_name rest)
    show ?thesis
    proof (cases "lookup_NumParamsForMatch function_name")
      case (Inl e)
      then show ?thesis using OrderedDict Cons by (simp add: AddFunctionToChangesDict_def)
    next
      case (Inr k)
      then have known: "map_of kFunctionInfoMap function_name \<noteq> None"
        by (auto simp: lookup_NumParamsForMatch_def split: option.splits)
      have "length tokens < k + 2"
        using assms Cons Inr known
        by (auto simp: malformed_def fails_to_tokenize_def names_unknown_command_def
            has_too_few_tokens_def)
      then obtain e where "AddFunctionToChangesDict_loop k tokens d = Inl e"
        using loop_short by blast
      then show ?thesis using OrderedDict Cons Inr by (simp add: AddFunctionToChangesDict_def)
    qed
  qed
qed

lemma parse_malformed:
  "line \<in> set changes \<Longrightarrow> malformed line \<Longrightarrow> \<exists>e. parse_changes changes d = Inl e"
proof (induction changes arbitrary: d)
  case Nil
  then show ?case by simp
next
  case (Cons l ls)
  show ?case
  proof (cases "shlex_split (strip l)")
    case (Inl e)
    then show ?thesis by simp
  next
    case tok: (Inr tokens)
    show ?thesis
    proof (cases "AddFunctionToChangesDict tokens d")
      case (Inl e)
      then show ?thesis using tok by simp
    next
      case (Inr d')
      have "l \<noteq> line" using add_malformed[OF Cons.prems(2), of tokens d] tok Inr by auto
      then have "line \<in> set ls" using Cons.prems(1) by simp
      then obtain e where "parse_changes ls d' = Inl e" using Cons.IH Cons.prems(2) by blast
      then show ?thesis using tok Inr by simp
    qed
  qed
qed

text \<open>
  C6. If a line of the change log does not tokenize, names a command that is not in
  \<^verbatim>\<open>kFunctionInfoMap\<close>, or has fewer tokens than its command needs, then
  \<^verbatim>\<open>UpdateProfileChangesFile\<close> raises an exception and the file is left as it was.
\<close>

theorem malformed_line_fails_fast:
  assumes "line \<in> set changes" and "malformed line"
  shows "\<exists>e. UpdateProfileChangesFile changes new_function_name new_function_params
             = (Some e, changes)"
proof -
  obtain e where "parse_changes changes (OrderedDict []) = Inl e"
    using parse_malformed[OF assms] by blast
  then show ?thesis by (simp add: UpdateProfileChangesFile_def)
qed

theorem malformed_line_fails_fast_witness:
  "malformed ''set_currency_to_tier A'' \<and>
   (\<exists>e. UpdateProfileChangesFile [''set_hide_maps_below_tier 3'', ''set_currency_to_tier A'']
           ''set_gem_min_quality'' [''10'']
         = (Some e, [''set_hide_maps_below_tier 3'', ''set_currency_to_tier A'']))"
proof -
  have m: "malformed ''set_currency_to_tier A''" by code_simp
  show ?thesis
    using m malformed_line_fails_fast [of "''set_currency_to_tier A''"
        "[''set_hide_maps_below_tier 3'', ''set_currency_to_tier A'']", OF _ m]
    by simp
qed


section \<open>One save per batch\<close>

lemma record_change_saved:
  "saved_filters (snd (record_change name ps w)) = saved_filters w"
  by (simp add: record_change_def split: option.splits prod.splits)

lemma end_in_batch_saved:
  "saved_filters (snd (DelegateFunctionCall_end True so name ps out w)) = saved_filters w"
  by (simp add: DelegateFunctionCall_end_def AppendFunctionOutput_def record_change_saved
      split: sum.splits)

lemma in_batch_saved:
  "saved_filters (snd (DelegateFunctionCall_in_batch env so name ps w)) = saved_filters w"
  by (simp add: DelegateFunctionCall_in_batch_def end_in_batch_saved split: sum.splits prod.splits)

lemma run_batch_loop_saved:
  "run_batch_loop env call_list cm w = (r, cm', w') \<Longrightarrow>
   saved_filters w' = saved_filters w \<and>
   (r = None \<longrightarrow> cm' = (cm \<or> list_ex is_mutator_call call_list))"
proof (induction call_list arbitrary: cm w)
  case Nil
  then show ?case by simp
next
  case (Cons line call_list)
  show ?case
  proof (cases "strip line = []")
    case True
    then have nm: "\<not> is_mutator_call line" by (simp add: is_mutator_call_def)
    have "run_batch_loop env call_list cm w = (r, cm', w')" using Cons.prems True by simp
    from Cons.IH[OF this] show ?thesis using nm by simp
  next
    case False
    show ?thesis
    proof (cases "shlex_split line")
      case (Inl e)
      then show ?thesis using Cons.prems False by auto
    next
      case (Inr tokens)
      show ?thesis
      proof (cases tokens)
        case Nil
        then show ?thesis using Cons.prems False Inr by auto
      next
        case (Cons name ps)
        note toks = this
        show ?thesis
        proof (cases "lookup_ModifiesFilter name")
          case (Inl e)
          then show ?thesis using Cons.prems False Inr toks by auto
        next
          case mf: (Inr modifies)
          obtain r1 w1 where call: "DelegateFunctionCall_in_batch env False name ps w = (r1, w1)"
            by (cases "DelegateFunctionCall_in_batch env False name ps w") auto
          have s1: "saved_filters w1 = saved_filters w"
            using in_batch_saved[of env False name ps w] call by simp
          have im: "is_mutator_call line = modifies"
            using False Inr toks mf by (simp add: is_mutator_call_def)
          show ?thesis
          proof (cases r1)
            case None
            then have "run_batch_loop env call_list (cm \<or> modifies) w1 = (r, cm', w')"
              using Cons.prems False Inr toks mf call by simp
            from Cons.IH[OF this] show ?thesis using s1 im by auto
          next
            case (Some e)
            then show ?thesis using Cons.prems False Inr toks mf call s1 by auto
          qed
        qed
      qed
    qed
  qed
qed

lemma mf_run_batch: "lookup_ModifiesFilter ''run_batch'' = Inr False"
  by code_simp

text \<open>
  C5. A call of \<^verbatim>\<open>DelegateFunctionCall\<close> with \<^verbatim>\<open>in_batch = True\<close> never saves the filter.
  A \<^verbatim>\<open>run_batch\<close> saves at most once: when it returns and one of the lines it executed is
  a command with \<^verbatim>\<open>ModifiesFilter\<close> true, it has saved exactly once, the filter as it is
  after the whole batch; when no line is such a command, or when the batch raises, it has
  not saved at all.
\<close>

theorem batch_saves_once:
  assumes "DelegateFunctionCall env False False ''run_batch'' function_params w = (r, w')"
  shows "(\<forall>suppress_output name params w0.
            saved_filters (snd (DelegateFunctionCall env True suppress_output name params w0))
              = saved_filters w0) \<and>
         length (saved_filters w') \<le> length (saved_filters w) + 1 \<and>
         (if r = None \<and> list_ex is_mutator_call (input_file w)
          then \<exists>lf'. loot_filter w' = Some lf' \<and> saved_filters w' = saved_filters w @ [lf']
          else saved_filters w' = saved_filters w)"
proof -
  have 1: "\<forall>suppress_output name params w0.
            saved_filters (snd (DelegateFunctionCall env True suppress_output name params w0))
              = saved_filters w0"
    by (simp add: DelegateFunctionCall_def in_batch_saved)
  have 2: "if r = None \<and> list_ex is_mutator_call (input_file w)
          then \<exists>lf'. loot_filter w' = Some lf' \<and> saved_filters w' = saved_filters w @ [lf']
          else saved_filters w' = saved_filters w"
  proof (cases "CheckNumParams function_params 0")
    case (Inl e)
    then show ?thesis using assms
      by (auto simp: DelegateFunctionCall_def run_batch_branch_def)
  next
    case (Inr u)
    obtain r1 cm1 w1 where loop: "run_batch_loop env (input_file w) False (WriteOutput [] w) = (r1, cm1, w1)"
      by (cases "run_batch_loop env (input_file w) False (WriteOutput [] w)") auto
    have s1: "saved_filters w1 = saved_filters w"
      and c1: "r1 = None \<longrightarrow> cm1 = list_ex is_mutator_call (input_file w)"
      using run_batch_loop_saved[OF loop] by (simp_all add: WriteOutput_def)
    show ?thesis
    proof (cases r1)
      case (Some e)
      then show ?thesis using assms Inr loop s1
        by (auto simp: DelegateFunctionCall_def run_batch_branch_def WriteOutput_def Let_def)
    next
      case None
      show ?thesis
      proof (cases cm1)
        case False
        then show ?thesis using assms Inr loop s1 c1 None
          by (auto simp: DelegateFunctionCall_def run_batch_branch_def WriteOutput_def Let_def
              DelegateFunctionCall_end_def mf_run_batch)
      next
        case True
        show ?thesis
        proof (cases "loot_filter w1")
          case None
          then show ?thesis using assms Inr loop s1 c1 \<open>r1 = None\<close> True
            by (auto simp: DelegateFunctionCall_def run_batch_branch_def WriteOutput_def Let_def
              DelegateFunctionCall_end_def mf_run_batch SaveToFile_def)
        next
          case (Some lf1)
          then show ?thesis using assms Inr loop s1 c1 \<open>r1 = None\<close> True
            by (auto simp: DelegateFunctionCall_def run_batch_branch_def WriteOutput_def Let_def
              DelegateFunctionCall_end_def mf_run_batch SaveToFile_def)
        qed
      qed
    qed
  qed
  have 3: "length (saved_filters w') \<le> length (saved_filters w) + 1"
    using 2 by (auto split: if_splits)
  show ?thesis using 1 2 3 by blast
qed

lemma batch_example:
  "DelegateFunctionCall recording False False ''run_batch'' [] (fresh\<lparr>input_file := batch_input\<rparr>)
   = (None,
      \<lparr>loot_filter = Some [SetHideMapsBelowTierTier 14, SetCurrencyToTier ''Chaos Orb'' 3],
       profiles = (),
       output_file = [newline] @ ''@'' @ [newline] @ ''0'' @ [newline] @ ''@'' @ [newline] @
                     [newline] @ ''@'' @ [newline],
       input_file = batch_input,
       changes_file = [''set_hide_maps_below_tier 14'',
                       ''set_currency_to_tier '' @ [dquote] @ ''Chaos Orb'' @ [dquote] @ '' 3''],
       saved_filters = [[SetHideMapsBelowTierTier 14, SetCurrencyToTier ''Chaos Orb'' 3]]\<rparr>)"
  by code_simp

lemma batch_input_mutator: "list_ex is_mutator_call batch_input"
  by code_simp

theorem batch_saves_once_witness:
  "list_ex is_mutator_call batch_input \<and>
   saved_filters (snd (DelegateFunctionCall recording False False ''run_batch'' []
                         (fresh\<lparr>input_file := batch_input\<rparr>)))
     = saved_filters (fresh\<lparr>input_file := batch_input\<rparr>) @
         [[SetHideMapsBelowTierTier 14, SetCurrencyToTier ''Chaos Orb'' 3]]"
  using batch_saves_once [OF batch_example] batch_input_mutator
  by (simp add: batch_example)

section \<open>Reports with nothing to report\<close>

lemma branch_basetypes:
  "DelegateFunctionCall_branch env ''get_all_visible_basetypes'' ps lf prof inp =
   get_all_visible_basetypes env lf prof ps"
  by (simp add: DelegateFunctionCall_branch_def)

lemma branch_flasks:
  "DelegateFunctionCall_branch env ''get_all_visible_flasks'' ps lf prof inp =
   get_all_visible_flasks env lf prof ps"
  by (simp add: DelegateFunctionCall_branch_def)

lemma branch_currency_tiers:
  "DelegateFunctionCall_branch env ''get_all_currency_tiers'' ps lf prof inp =
   get_all_currency_tiers env lf prof ps"
  by (simp add: DelegateFunctionCall_branch_def)

lemma mf_basetypes: "lookup_ModifiesFilter ''get_all_visible_basetypes'' = Inr False"
  by code_simp

lemma mf_flasks: "lookup_ModifiesFilter ''get_all_visible_flasks'' = Inr False"
  by code_simp

lemma mf_currency_tiers: "lookup_ModifiesFilter ''get_all_currency_tiers'' = Inr False"
  by code_simp

lemma currency_loop_out:
  assumes "\<forall>tier \<in> set tiers. lf_list env (GetAllCurrencyInTier tier) lf = Inr (names tier)"
  shows "currency_tiers_loop env lf tiers out =
         Inr (out @ concat (map (\<lambda>tier. currency_tier_lines tier (names tier)) tiers))"
  using assms by (induction tiers arbitrary: out) (simp_all add: bind_def)

lemma currency_tier_lines_empty: "(currency_tier_lines tier ns = []) = (ns = [])"
  by (cases ns) (simp_all add: currency_tier_lines_def)

lemma world_same [simp]: "w\<lparr>loot_filter := loot_filter w, profiles := profiles w\<rparr> = w"
  by simp

lemma basetypes_empty:
  assumes "loot_filter w = Some lf"
    and "lf_list env (GetAllVisibleBaseTypes False) lf = Inr []"
    and "lf_list env (GetAllVisibleBaseTypes True) lf = Inr []"
    and "set_order env [] = []"
  shows "DelegateFunctionCall env False False ''get_all_visible_basetypes'' [] w =
         (None, w\<lparr>output_file := []\<rparr>)"
  using assms
  by (simp add: DelegateFunctionCall_def branch_basetypes get_all_visible_basetypes_def
      CheckNumParams_def bind_def with_filter_def remove_final_newline_guarded_def
      DelegateFunctionCall_end_def mf_basetypes WriteOutput_def)

lemma flasks_empty:
  assumes "loot_filter w = Some lf"
    and "lf_list env (GetAllVisibleFlaskTypes False) lf = Inr []"
    and "lf_list env (GetAllVisibleFlaskTypes True) lf = Inr []"
  shows "DelegateFunctionCall env False False ''get_all_visible_flasks'' [] w =
         (None, w\<lparr>output_file := []\<rparr>)"
  using assms
  by (simp add: DelegateFunctionCall_def branch_flasks get_all_visible_flasks_def
      CheckNumParams_def bind_def with_filter_def remove_final_newline_guarded_def
      DelegateFunctionCall_end_def mf_flasks WriteOutput_def)

lemma currency_report_empty:
  "(currency_report names n = []) = (\<forall>tier \<in> {1..n}. names tier = [])"
  by (auto simp: currency_report_def currency_tier_lines_empty)

lemma currency_tiers_result:
  assumes lf: "loot_filter w = Some lf"
    and names: "\<forall>tier \<in> {1..kNumCurrencyTiersExcludingScrolls env}.
                  lf_list env (GetAllCurrencyInTier tier) lf = Inr (names tier)"
  shows "DelegateFunctionCall env False False ''get_all_currency_tiers'' [] w =
           (if \<forall>tier \<in> {1..kNumCurrencyTiersExcludingScrolls env}. names tier = []
            then (Some IndexError, w)
            else (None, w\<lparr>output_file :=
                   (let out = currency_report names (kNumCurrencyTiersExcludingScrolls env)
                    in if last out = newline then butlast out else out)\<rparr>))"
proof -
  let ?n = "kNumCurrencyTiersExcludingScrolls env"
  have "\<forall>tier \<in> set [1..<Suc ?n]. lf_list env (GetAllCurrencyInTier tier) lf = Inr (names tier)"
    using names by auto
  then have loop: "currency_tiers_loop env lf [1..<Suc ?n] [] = Inr (currency_report names ?n)"
    using currency_loop_out[of "[1..<Suc ?n]" env lf names "[]"]
    by (simp add: currency_report_def del: upt_Suc)
  have zero: "?n = 0 \<Longrightarrow> currency_report names ?n = []" by (simp add: currency_report_def)
  have br: "get_all_currency_tiers env (Some lf) (profiles w) [] =
        bind (remove_final_newline (currency_report names ?n))
          (\<lambda>out. Inr (Some lf, profiles w, out, []))"
    using loop zero
    by (cases "?n = 0")
      (simp_all add: get_all_currency_tiers_def CheckNumParams_def bind_def with_filter_def
        del: upt_Suc)
  show ?thesis
  proof (cases "\<forall>tier \<in> {1..?n}. names tier = []")
    case True
    then have "currency_report names ?n = []" by (simp add: currency_report_empty)
    then show ?thesis using True lf
      by (simp add: DelegateFunctionCall_def branch_currency_tiers br remove_final_newline_def bind_def)
  next
    case False
    then have "currency_report names ?n \<noteq> []" by (simp add: currency_report_empty)
    then show ?thesis using False lf
      by (simp add: DelegateFunctionCall_def branch_currency_tiers br remove_final_newline_def bind_def
          DelegateFunctionCall_end_def mf_currency_tiers WriteOutput_def Let_def)
  qed
qed

text \<open>
  C9. With a filter loaded: when no base type is visible, \<^verbatim>\<open>get_all_visible_basetypes\<close>
  writes the empty output, and so does \<^verbatim>\<open>get_all_visible_flasks\<close> when no flask is
  visible; \<^verbatim>\<open>get_all_currency_tiers\<close> raises \<^verbatim>\<open>IndexError\<close> and writes nothing when every
  tier from 1 to \<^verbatim>\<open>kNumCurrencyTiersExcludingScrolls\<close> is empty, and returns its report as
  soon as one tier holds a currency name.
\<close>

theorem empty_reports:
  assumes "loot_filter w = Some lf"
  shows "(lf_list env (GetAllVisibleBaseTypes False) lf = Inr [] \<and>
          lf_list env (GetAllVisibleBaseTypes True) lf = Inr [] \<and> set_order env [] = [] \<longrightarrow>
            DelegateFunctionCall env False False ''get_all_visible_basetypes'' [] w =
              (None, w\<lparr>output_file := []\<rparr>)) \<and>
         (lf_list env (GetAllVisibleFlaskTypes False) lf = Inr [] \<and>
          lf_list env (GetAllVisibleFlaskTypes True) lf = Inr [] \<longrightarrow>
            DelegateFunctionCall env False False ''get_all_visible_flasks'' [] w =
              (None, w\<lparr>output_file := []\<rparr>)) \<and>
         ((\<forall>tier \<in> {1..kNumCurrencyTiersExcludingScrolls env}.
              lf_list env (GetAllCurrencyInTier tier) lf = Inr (names tier)) \<longrightarrow>
            DelegateFunctionCall env False False ''get_all_currency_tiers'' [] w =
              (if \<forall>tier \<in> {1..kNumCurrencyTiersExcludingScrolls env}. names tier = []
               then (Some IndexError, w)
               else (None, w\<lparr>output_file :=
                      (let out = currency_report names (kNumCurrencyTiersExcludingScrolls env)
                       in if last out = newline then butlast out else out)\<rparr>)))"
  using basetypes_empty [OF assms] flasks_empty [OF assms] currency_tiers_result [OF assms]
  by blast

theorem empty_reports_witness:
  "DelegateFunctionCall recording False False ''get_all_visible_basetypes'' [] fresh =
     (None, fresh\<lparr>output_file := []\<rparr>) \<and>
   DelegateFunctionCall recording False False ''get_all_visible_flasks'' [] fresh =
     (None, fresh\<lparr>output_file := []\<rparr>) \<and>
   DelegateFunctionCall recording False False ''get_all_currency_tiers'' [] fresh =
     (Some IndexError, fresh)"
proof -
  have lf: "loot_filter fresh = Some []" by (simp add: fresh_def)
  show ?thesis
    using empty_reports [OF lf, of recording "\<lambda>tier. []"]
    by (simp add: recording_def)
qed

section \<open>The exit code\<close>

lemma exit_codes_append: "exit_codes (xs @ ys) = exit_codes xs @ exit_codes ys"
  by (induction xs rule: exit_codes.induct) simp_all

lemma Error_trace: "log_only tr (snd (Error rt e tr))"
  by (cases "Log rt (''Error '' @ e) tr") (simp_all add: Error_def log_only_def)

lemma log_only_same: "log_only tr tr"
  by (simp add: log_only_def)

lemma Validate_trace:
  "log_only tr (snd (ValidateAndParseArguments rt env argv prof tr))"
proof (cases argv)
  case Nil
  then show ?thesis by (simp add: ValidateAndParseArguments_def Error_trace)
next
  case (Cons script rest)
  show ?thesis
  proof (cases rest)
    case Nil
    then show ?thesis using Cons by (simp add: ValidateAndParseArguments_def Error_trace)
  next
    case (Cons function_name remaining_params)
    note rest = Cons
    show ?thesis
    proof (cases "map_of kFunctionInfoMap function_name")
      case None
      then show ?thesis using \<open>argv = script # rest\<close> rest
        by (simp add: ValidateAndParseArguments_def log_only_same)
    next
      case (Some fi)
      then show ?thesis using \<open>argv = script # rest\<close> rest
        by (simp add: ValidateAndParseArguments_def Let_def Error_trace log_only_same
            split: option.splits)
    qed
  qed
qed

lemma main_impl_trace:
  "log_only (trace p) (trace (snd (main_impl rt env argv p)))"
proof (cases "InitializeLog rt kLogFilename (trace p)")
  case (Some e)
  then show ?thesis by (simp add: main_impl_def log_only_same)
next
  case None
  note init = None
  let ?p1 = "p\<lparr>trace := trace p @ [LogInitialized kLogFilename]\<rparr>"
  let ?m = "''Info: sys.argv = '' @ str_argv rt argv"
  show ?thesis
  proof (cases "Log rt ?m (trace ?p1)")
    case (Some e)
    then have "main_impl rt env argv p = (Some e, ?p1)"
      using init by (simp add: main_impl_def Let_def)
    then show ?thesis by (simp add: log_only_def)
  next
    case None
    let ?tr2 = "trace p @ [LogInitialized kLogFilename, Logged ?m]"
    let ?v = "ValidateAndParseArguments rt env argv (profiles (state p)) ?tr2"
    obtain evs where evs: "snd ?v = ?tr2 @ evs" "exit_codes evs = []"
      using Validate_trace[of ?tr2 rt env argv "profiles (state p)"] unfolding log_only_def
      by blast
    obtain res tr where v: "?v = (res, tr)" by (cases ?v) auto
    have "trace (snd (main_impl rt env argv p)) = tr"
    proof (cases res)
      case (Inl e)
      then have "main_impl rt env argv p = (Some e, p\<lparr>trace := tr\<rparr>)"
        using init None v by (simp add: main_impl_def Let_def)
      then show ?thesis by simp
    next
      case (Inr parsed)
      obtain function_name function_params profile_name
        where parsed: "parsed = (function_name, function_params, profile_name)"
        by (cases parsed) auto
      let ?lf = "construct_filter env function_name profile_name (profiles (state p))"
      show ?thesis
      proof (cases ?lf)
        case (Inl e)
        then have "main_impl rt env argv p = (Some e, p\<lparr>trace := tr\<rparr>)"
          using init None v Inr parsed by (simp add: main_impl_def Let_def)
        then show ?thesis by simp
      next
        case (Inr lf)
        obtain r w where d: "DelegateFunctionCall env False False function_name
                          function_params ((state p)\<lparr>loot_filter := lf\<rparr>) = (r, w)"
          by (cases "DelegateFunctionCall env False False function_name
                          function_params ((state p)\<lparr>loot_filter := lf\<rparr>)") auto
        have "main_impl rt env argv p = (r, p\<lparr>trace := tr, state := w\<rparr>)"
          using init None v \<open>res = Inr parsed\<close> parsed Inr d by (simp add: main_impl_def Let_def)
        then show ?thesis by simp
      qed
    qed
    then have "trace (snd (main_impl rt env argv p)) = snd ?v" using v by simp
    then have "trace (snd (main_impl rt env argv p)) =
        trace p @ ([LogInitialized kLogFilename, Logged ?m] @ evs)" using evs(1) by simp
    moreover have "exit_codes ([LogInitialized kLogFilename, Logged ?m] @ evs) = []"
      using evs(2) by simp
    ultimately show ?thesis unfolding log_only_def by blast
  qed
qed

lemma main_impl_codes:
  "exit_codes (trace (snd (main_impl rt env argv p))) = exit_codes (trace p)"
  using main_impl_trace[of p rt env argv] by (auto simp: exit_codes_append log_only_def)

lemma main_impl_prefix:
  "prefix (trace p) (trace (snd (main_impl rt env argv p)))"
  using main_impl_trace[of p rt env argv] by (auto simp: prefix_def log_only_def)

lemma main_state:
  "state (snd (main rt env argv p)) =
   state (snd (main_impl rt env argv (p\<lparr>trace := trace p @ [ExitCodeWritten ''-1'']\<rparr>)))"
  by (auto simp: main_def Let_def split: prod.splits option.splits)

lemma main_prefix:
  "prefix (trace p @ [ExitCodeWritten ''-1'']) (trace (snd (main rt env argv p)))"
proof -
  let ?p0 = "p\<lparr>trace := trace p @ [ExitCodeWritten ''-1'']\<rparr>"
  have a: "prefix (trace p @ [ExitCodeWritten ''-1'']) (trace (snd (main_impl rt env argv ?p0)))"
    using main_impl_prefix[of ?p0 rt env argv] by simp
  have b: "prefix (trace (snd (main_impl rt env argv ?p0))) (trace (snd (main rt env argv p)))"
    by (auto simp: main_def Let_def split: prod.splits option.splits)
  show ?thesis using a b by (rule prefix_order.trans)
qed

lemma main_returns:
  assumes "fst (main_impl rt env argv (p\<lparr>trace := trace p @ [ExitCodeWritten ''-1'']\<rparr>)) = None"
  shows "fst (main rt env argv p) = None \<and>
         exit_codes (trace (snd (main rt env argv p))) = exit_codes (trace p) @ [''-1'', ''0''] \<and>
         last (trace (snd (main rt env argv p))) = ExitCodeWritten ''0''"
proof -
  let ?p0 = "p\<lparr>trace := trace p @ [ExitCodeWritten ''-1'']\<rparr>"
  obtain p1 where r: "main_impl rt env argv ?p0 = (None, p1)"
    using assms by (cases "main_impl rt env argv ?p0") auto
  have "exit_codes (trace p1) = exit_codes (trace ?p0)"
    using main_impl_codes[of rt env argv ?p0] r by simp
  then show ?thesis using r by (simp add: main_def exit_codes_append)
qed

lemma main_reports:
  assumes "fst (main_impl rt env argv (p\<lparr>trace := trace p @ [ExitCodeWritten ''-1'']\<rparr>)) = Some e"
    and "is_Exception e"
    and "Log rt (format_exc rt e)
           (trace (snd (main_impl rt env argv (p\<lparr>trace := trace p @ [ExitCodeWritten ''-1'']\<rparr>))))
         = None"
  shows "fst (main rt env argv p) = Some e \<and>
         exit_codes (trace (snd (main rt env argv p))) = exit_codes (trace p) @ [''-1'', ''1''] \<and>
         last (trace (snd (main rt env argv p))) = ExitCodeWritten ''1''"
proof -
  let ?p0 = "p\<lparr>trace := trace p @ [ExitCodeWritten ''-1'']\<rparr>"
  obtain p1 where r: "main_impl rt env argv ?p0 = (Some e, p1)"
    using assms(1) by (cases "main_impl rt env argv ?p0") auto
  have "exit_codes (trace p1) = exit_codes (trace ?p0)"
    using main_impl_codes[of rt env argv ?p0] r by simp
  then show ?thesis using r assms(2,3) by (simp add: main_def exit_codes_append)
qed

lemma main_left_in_progress:
  assumes "fst (main_impl rt env argv (p\<lparr>trace := trace p @ [ExitCodeWritten ''-1'']\<rparr>)) = Some e"
    and "is_Exception e \<longrightarrow>
         Log rt (format_exc rt e)
           (trace (snd (main_impl rt env argv (p\<lparr>trace := trace p @ [ExitCodeWritten ''-1'']\<rparr>))))
         = Some e'"
  shows "fst (main rt env argv p) = Some (if is_Exception e then e' else e) \<and>
         exit_codes (trace (snd (main rt env argv p))) = exit_codes (trace p) @ [''-1'']"
proof -
  let ?p0 = "p\<lparr>trace := trace p @ [ExitCodeWritten ''-1'']\<rparr>"
  obtain p1 where r: "main_impl rt env argv ?p0 = (Some e, p1)"
    using assms(1) by (cases "main_impl rt env argv ?p0") auto
  have "exit_codes (trace p1) = exit_codes (trace ?p0)"
    using main_impl_codes[of rt env argv ?p0] r by simp
  then show ?thesis using r assms(2) by (simp add: main_def exit_codes_append)
qed

text \<open>
  C10, as amended. The first thing \<^verbatim>\<open>main\<close> does is to write the code -1, and
  \<^verbatim>\<open>main_impl\<close> writes no code. When \<^verbatim>\<open>main_impl\<close> returns, \<^verbatim>\<open>main\<close> writes the code 0
  last and returns. When \<^verbatim>\<open>main_impl\<close> raises an exception that \<^verbatim>\<open>except Exception\<close>
  catches and the logger takes the traceback, \<^verbatim>\<open>main\<close> writes the code 1 last and raises
  the exception again. When the exception is \<^verbatim>\<open>KeyboardInterrupt\<close> or \<^verbatim>\<open>SystemExit\<close>, or
  when the logger raises in the handler, no other code is written: the file still holds
  -1 when \<^verbatim>\<open>main\<close> ends with that exception. In every case the state of the dispatcher is
  the one \<^verbatim>\<open>main_impl\<close> left.
\<close>

theorem exit_code_protocol:
  "prefix (trace p @ [ExitCodeWritten ''-1'']) (trace (snd (main rt env argv p))) \<and>
   state (snd (main rt env argv p)) = state (snd (main_impl rt env argv (in_progress p))) \<and>
   (case fst (main_impl rt env argv (in_progress p)) of
      None \<Rightarrow>
        fst (main rt env argv p) = None \<and>
        exit_codes (trace (snd (main rt env argv p))) = exit_codes (trace p) @ [''-1'', ''0''] \<and>
        last (trace (snd (main rt env argv p))) = ExitCodeWritten ''0''
    | Some e \<Rightarrow>
        if is_Exception e then
          (case Log rt (format_exc rt e) (trace (snd (main_impl rt env argv (in_progress p)))) of
             None \<Rightarrow>
               fst (main rt env argv p) = Some e \<and>
               exit_codes (trace (snd (main rt env argv p)))
                 = exit_codes (trace p) @ [''-1'', ''1''] \<and>
               last (trace (snd (main rt env argv p))) = ExitCodeWritten ''1''
           | Some logger_exception \<Rightarrow>
               fst (main rt env argv p) = Some logger_exception \<and>
               exit_codes (trace (snd (main rt env argv p))) = exit_codes (trace p) @ [''-1''])
        else
          fst (main rt env argv p) = Some e \<and>
          exit_codes (trace (snd (main rt env argv p))) = exit_codes (trace p) @ [''-1''])"
proof (intro conjI)
  show "prefix (trace p @ [ExitCodeWritten ''-1'']) (trace (snd (main rt env argv p)))"
    by (rule main_prefix)
  show "state (snd (main rt env argv p)) = state (snd (main_impl rt env argv (in_progress p)))"
    unfolding in_progress_def by (rule main_state)
  show "case fst (main_impl rt env argv (in_progress p)) of
      None \<Rightarrow>
        fst (main rt env argv p) = None \<and>
        exit_codes (trace (snd (main rt env argv p))) = exit_codes (trace p) @ [''-1'', ''0''] \<and>
        last (trace (snd (main rt env argv p))) = ExitCodeWritten ''0''
    | Some e \<Rightarrow>
        if is_Exception e then
          (case Log rt (format_exc rt e) (trace (snd (main_impl rt env argv (in_progress p)))) of
             None \<Rightarrow>
               fst (main rt env argv p) = Some e \<and>
               exit_codes (trace (snd (main rt env argv p)))
                 = exit_codes (trace p) @ [''-1'', ''1''] \<and>
               last (trace (snd (main rt env argv p))) = ExitCodeWritten ''1''
           | Some logger_exception \<Rightarrow>
               fst (main rt env argv p) = Some logger_exception \<and>
               exit_codes (trace (snd (main rt env argv p))) = exit_codes (trace p) @ [''-1''])
        else
          fst (main rt env argv p) = Some e \<and>
          exit_codes (trace (snd (main rt env argv p))) = exit_codes (trace p) @ [''-1'']"
  proof (cases "fst (main_impl rt env argv (in_progress p))")
    case None
    then show ?thesis using main_returns[of rt env argv p] by (simp add: in_progress_def)
  next
    case (Some e)
    show ?thesis
    proof (cases "is_Exception e")
      case False
      then show ?thesis using Some main_left_in_progress[of rt env argv p e]
        by (simp add: in_progress_def)
    next
      case True
      show ?thesis
      proof (cases "Log rt (format_exc rt e) (trace (snd (main_impl rt env argv (in_progress p))))")
        case None
        then show ?thesis using Some True main_reports[of rt env argv p e]
          by (simp add: in_progress_def)
      next
        case (Some logger_exception)
        then show ?thesis
          using \<open>fst (main_impl rt env argv (in_progress p)) = Some e\<close> True
            main_left_in_progress[of rt env argv p e logger_exception]
          by (simp add: in_progress_def)
      qed
    qed
  qed
qed

lemma good_argv_returns: "fst (main_impl quiet recording good_argv (in_progress start)) = None"
  by code_simp

lemma bad_argv_raises:
  "fst (main_impl quiet recording bad_argv (in_progress start)) = Some ValueError"
  by code_simp

theorem exit_code_protocol_witness:
  "fst (main quiet recording good_argv start) = None \<and>
   exit_codes (trace (snd (main quiet recording good_argv start))) = [''-1'', ''0''] \<and>
   fst (main quiet recording bad_argv start) = Some ValueError \<and>
   exit_codes (trace (snd (main quiet recording bad_argv start))) = [''-1'', ''1'']"
proof -
  have t: "trace start = []" by (simp add: start_def)
  have q: "Log quiet message tr = None" for message tr by (simp add: quiet_def)
  have ex: "is_Exception ValueError" by (simp add: is_Exception_def)
  have a: "fst (main quiet recording good_argv start) = None \<and>
      exit_codes (trace (snd (main quiet recording good_argv start))) = [''-1'', ''0'']"
    using exit_code_protocol [of start quiet recording good_argv] good_argv_returns t by simp
  have b: "fst (main quiet recording bad_argv start) = Some ValueError \<and>
      exit_codes (trace (snd (main quiet recording bad_argv start))) = [''-1'', ''1'']"
    using exit_code_protocol [of start quiet recording bad_argv] bad_argv_raises t q ex by simp
  show ?thesis using a b by simp
qed

text \<open>
  The claim as stated fails when the constructor of the filter is interrupted, and when the
  logger cannot take the traceback of a \<^verbatim>\<open>ValueError\<close>: the exit-code file holds -1 at the
  end.
\<close>

theorem exit_code_protocol_counterexample:
  "fst (main quiet interrupted good_argv start) = Some KeyboardInterrupt \<and>
   exit_codes (trace (snd (main quiet interrupted good_argv start))) = [''-1''] \<and>
   fst (main one_line_log recording bad_argv start) = Some OSError \<and>
   exit_codes (trace (snd (main one_line_log recording bad_argv start))) = [''-1'']"
  by code_simp

section \<open>The recorded token list\<close>

lemma mutators_complete:
  "lookup_ModifiesFilter name = Inr True \<Longrightarrow> name \<in> set mutators"
  unfolding lookup_ModifiesFilter_def kFunctionInfoMap_def info_def mutators_def
  by (simp split: if_splits)

lemma table_arity:
  "list_all (\<lambda>item. ModifiesFilter (snd item) \<longrightarrow>
       (\<exists>k. NumParamsForMatch (snd item) = Some k \<and>
            Max (set (NumParamsOptions (snd item))) = k + 1)) kFunctionInfoMap"
  by (simp add: kFunctionInfoMap_def info_def)

lemma call_setter_params:
  "call_setter env lf prof ps call = Inr (lf', prof', out, ps') \<Longrightarrow> ps' = ps"
  by (auto simp: call_setter_def with_filter_def bind_def split: option.splits sum.splits)

lemma set_int_branch_params:
  "set_int_branch env lf prof ps setter = Inr (lf', prof', out, ps') \<Longrightarrow> length ps' = 1"
  by (auto simp: set_int_branch_def CheckNumParams_def bind_def
      split: if_splits sum.splits dest: call_setter_params)

lemma set_str_branch_params:
  "set_str_branch env lf prof ps setter = Inr (lf', prof', out, ps') \<Longrightarrow> length ps' = 1"
  by (auto simp: set_str_branch_def CheckNumParams_def bind_def
      split: if_splits sum.splits dest: call_setter_params)

lemma set_two_flags_branch_params:
  "set_two_flags_branch env lf prof ps setter = Inr (lf', prof', out, ps') \<Longrightarrow> length ps' = 3"
  by (auto simp: set_two_flags_branch_def CheckNumParams_def bind_def Let_def
      split: if_splits sum.splits dest: call_setter_params)

lemma add_remove_socket_rule_params:
  "add_remove_socket_rule env lf prof ps = Inr (lf', prof', out, ps') \<Longrightarrow> length ps' = 3"
  by (auto simp: add_remove_socket_rule_def CheckNumParams_def bind_def Let_def
      split: if_splits sum.splits dest: call_setter_params)

lemma set_rule_visibility_params:
  "set_rule_visibility env lf prof ps = Inr (lf', prof', out, ps') \<Longrightarrow> length ps' = 3"
  by (auto simp: set_rule_visibility_def CheckNumParams_def bind_def with_filter_def
      split: if_splits sum.splits option.splits dest: call_setter_params)

lemma set_currency_to_tier_params:
  "set_currency_to_tier env lf prof ps = Inr (lf', prof', out, ps') \<Longrightarrow> length ps' = 2"
  by (auto simp: set_currency_to_tier_def CheckNumParams_def bind_def
      split: if_splits sum.splits dest: call_setter_params)

lemma set_currency_tier_min_visible_stack_size_params:
  "set_currency_tier_min_visible_stack_size env lf prof ps = Inr (lf', prof', out, ps') \<Longrightarrow>
   length ps' = 2"
  by (auto simp: set_currency_tier_min_visible_stack_size_def CheckNumParams_def bind_def
      split: if_splits sum.splits dest: call_setter_params)

lemma set_chaos_recipe_enabled_for_params:
  "set_chaos_recipe_enabled_for env lf prof ps = Inr (lf', prof', out, ps') \<Longrightarrow> length ps' = 2"
  by (auto simp: set_chaos_recipe_enabled_for_def CheckNumParams_def bind_def
      split: if_splits sum.splits dest: call_setter_params)

lemma arity_set_rule_visibility: "lookup_NumParamsForMatch ''set_rule_visibility'' = Inr 2"
  by (simp add: lookup_NumParamsForMatch_def kFunctionInfoMap_def info_def)

lemma records_set_rule_visibility: "records_in_bounds env ''set_rule_visibility''"
  unfolding records_in_bounds_def
  by (intro allI impI) (simp add: DelegateFunctionCall_branch_def arity_set_rule_visibility set_rule_visibility_params)

lemma arity_set_currency_to_tier: "lookup_NumParamsForMatch ''set_currency_to_tier'' = Inr 1"
  by (simp add: lookup_NumParamsForMatch_def kFunctionInfoMap_def info_def)

lemma records_set_currency_to_tier: "records_in_bounds env ''set_currency_to_tier''"
  unfolding records_in_bounds_def
  by (intro allI impI) (simp add: DelegateFunctionCall_branch_def arity_set_currency_to_tier set_currency_to_tier_params)

lemma arity_set_currency_tier_min_visible_stack_size: "lookup_NumParamsForMatch ''set_currency_tier_min_visible_stack_size'' = Inr 1"
  by (simp add: lookup_NumParamsForMatch_def kFunctionInfoMap_def info_def)

lemma records_set_currency_tier_min_visible_stack_size: "records_in_bounds env ''set_currency_tier_min_visible_stack_size''"
  unfolding records_in_bounds_def
  by (intro allI impI) (simp add: DelegateFunctionCall_branch_def arity_set_currency_tier_min_visible_stack_size set_currency_tier_min_visible_stack_size_params)

lemma arity_set_hide_essences_above_tier: "lookup_NumParamsForMatch ''set_hide_essences_above_tier'' = Inr 0"
  by (simp add: lookup_NumParamsForMatch_def kFunctionInfoMap_def info_def)

lemma records_set_hide_essences_above_tier: "records_in_bounds env ''set_hide_essences_above_tier''"
  unfolding records_in_bounds_def
  by (intro allI impI) (simp add: DelegateFunctionCall_branch_def arity_set_hide_essences_above_tier set_int_branch_params)

lemma arity_set_hide_div_cards_above_tier: "lookup_NumParamsForMatch ''set_hide_div_cards_above_tier'' = Inr 0"
  by (simp add: lookup_NumParamsForMatch_def kFunctionInfoMap_def info_def)

lemma records_set_hide_div_cards_above_tier: "records_in_bounds env ''set_hide_div_cards_above_tier''"
  unfolding records_in_bounds_def
  by (intro allI impI) (simp add: DelegateFunctionCall_branch_def arity_set_hide_div_cards_above_tier set_int_branch_params)

lemma arity_set_hide_unique_items_above_tier: "lookup_NumParamsForMatch ''set_hide_unique_items_above_tier'' = Inr 0"
  by (simp add: lookup_NumParamsForMatch_def kFunctionInfoMap_def info_def)

lemma records_set_hide_unique_items_above_tier: "records_in_bounds env ''set_hide_unique_items_above_tier''"
  unfolding records_in_bounds_def
  by (intro allI impI) (simp add: DelegateFunctionCall_branch_def arity_set_hide_unique_items_above_tier set_int_branch_params)

lemma arity_set_hide_unique_maps_above_tier: "lookup_NumParamsForMatch ''set_hide_unique_maps_above_tier'' = Inr 0"
  by (simp add: lookup_NumParamsForMatch_def kFunctionInfoMap_def info_def)

lemma records_set_hide_unique_maps_above_tier: "records_in_bounds env ''set_hide_unique_maps_above_tier''"
  unfolding records_in_bounds_def
  by (intro allI impI) (simp add: DelegateFunctionCall_branch_def arity_set_hide_unique_maps_above_tier set_int_branch_params)

lemma arity_set_lowest_visible_oil: "lookup_NumParamsForMatch ''set_lowest_visible_oil'' = Inr 0"
  by (simp add: lookup_NumParamsForMatch_def kFunctionInfoMap_def info_def)

lemma records_set_lowest_visible_oil: "records_in_bounds env ''set_lowest_visible_oil''"
  unfolding records_in_bounds_def
  by (intro allI impI) (simp add: DelegateFunctionCall_branch_def arity_set_lowest_visible_oil set_str_branch_params)

lemma arity_set_gem_min_quality: "lookup_NumParamsForMatch ''set_gem_min_quality'' = Inr 0"
  by (simp add: lookup_NumParamsForMatch_def kFunctionInfoMap_def info_def)

lemma records_set_gem_min_quality: "records_in_bounds env ''set_gem_min_quality''"
  unfolding records_in_bounds_def
  by (intro allI impI) (simp add: DelegateFunctionCall_branch_def arity_set_gem_min_quality set_int_branch_params)

lemma arity_set_flask_min_quality: "lookup_NumParamsForMatch ''set_flask_min_quality'' = Inr 0"
  by (simp add: lookup_NumParamsForMatch_def kFunctionInfoMap_def info_def)

lemma records_set_flask_min_quality: "records_in_bounds env ''set_flask_min_quality''"
  unfolding records_in_bounds_def
  by (intro allI impI) (simp add: DelegateFunctionCall_branch_def arity_set_flask_min_quality set_int_branch_params)

lemma arity_set_hide_maps_below_tier: "lookup_NumParamsForMatch ''set_hide_maps_below_tier'' = Inr 0"
  by (simp add: lookup_NumParamsForMatch_def kFunctionInfoMap_def info_def)

lemma records_set_hide_maps_below_tier: "records_in_bounds env ''set_hide_maps_below_tier''"
  unfolding records_in_bounds_def
  by (intro allI impI) (simp add: DelegateFunctionCall_branch_def arity_set_hide_maps_below_tier set_int_branch_params)

lemma arity_set_basetype_visibility: "lookup_NumParamsForMatch ''set_basetype_visibility'' = Inr 2"
  by (simp add: lookup_NumParamsForMatch_def kFunctionInfoMap_def info_def)

lemma records_set_basetype_visibility: "records_in_bounds env ''set_basetype_visibility''"
  unfolding records_in_bounds_def
  by (intro allI impI) (simp add: DelegateFunctionCall_branch_def arity_set_basetype_visibility set_two_flags_branch_params)

lemma arity_set_flask_visibility: "lookup_NumParamsForMatch ''set_flask_visibility'' = Inr 2"
  by (simp add: lookup_NumParamsForMatch_def kFunctionInfoMap_def info_def)

lemma records_set_flask_visibility: "records_in_bounds env ''set_flask_visibility''"
  unfolding records_in_bounds_def
  by (intro allI impI) (simp add: DelegateFunctionCall_branch_def arity_set_flask_visibility set_two_flags_branch_params)

lemma arity_add_remove_socket_rule: "lookup_NumParamsForMatch ''add_remove_socket_rule'' = Inr 2"
  by (simp add: lookup_NumParamsForMatch_def kFunctionInfoMap_def info_def)

lemma records_add_remove_socket_rule: "records_in_bounds env ''add_remove_socket_rule''"
  unfolding records_in_bounds_def
  by (intro allI impI) (simp add: DelegateFunctionCall_branch_def arity_add_remove_socket_rule add_remove_socket_rule_params)

lemma arity_set_rgb_item_max_size: "lookup_NumParamsForMatch ''set_rgb_item_max_size'' = Inr 0"
  by (simp add: lookup_NumParamsForMatch_def kFunctionInfoMap_def info_def)

lemma records_set_rgb_item_max_size: "records_in_bounds env ''set_rgb_item_max_size''"
  unfolding records_in_bounds_def
  by (intro allI impI) (simp add: DelegateFunctionCall_branch_def arity_set_rgb_item_max_size set_str_branch_params)

lemma arity_set_chaos_recipe_enabled_for: "lookup_NumParamsForMatch ''set_chaos_recipe_enabled_for'' = Inr 1"
  by (simp add: lookup_NumParamsForMatch_def kFunctionInfoMap_def info_def)

lemma records_set_chaos_recipe_enabled_for: "records_in_bounds env ''set_chaos_recipe_enabled_for''"
  unfolding records_in_bounds_def
  by (intro allI impI) (simp add: DelegateFunctionCall_branch_def arity_set_chaos_recipe_enabled_for set_chaos_recipe_enabled_for_params)

lemma records_mutators: "list_all (records_in_bounds env) mutators"
  by (simp add: mutators_def records_set_rule_visibility records_set_currency_to_tier records_set_currency_tier_min_visible_stack_size records_set_hide_essences_above_tier records_set_hide_div_cards_above_tier records_set_hide_unique_items_above_tier records_set_hide_unique_maps_above_tier records_set_lowest_visible_oil records_set_gem_min_quality records_set_flask_min_quality records_set_hide_maps_below_tier records_set_basetype_visibility records_set_flask_visibility records_add_remove_socket_rule records_set_rgb_item_max_size records_set_chaos_recipe_enabled_for)

lemma recorded_length:
  assumes "lookup_ModifiesFilter name = Inr True"
    and "DelegateFunctionCall_branch env name ps lf prof inp = Inr (lf', prof', out, ps')"
  shows "\<exists>k. lookup_NumParamsForMatch name = Inr k \<and> length (name # ps') = k + 2"
proof -
  have "name \<in> set mutators" by (rule mutators_complete[OF assms(1)])
  then have "records_in_bounds env name"
    using records_mutators[of env] by (simp add: list_all_iff)
  then show ?thesis using assms(2) unfolding records_in_bounds_def by blast
qed

lemma parse_changes_AddAll:
  "parse_changes changes d = Inr d' \<Longrightarrow>
   \<exists>cmds. map (\<lambda>line. shlex_split (strip line)) changes = map Inr cmds \<and> AddAll cmds d = Inr d'"
proof (induction changes arbitrary: d)
  case Nil
  then show ?case by (intro exI[of _ "[]"]) simp
next
  case (Cons line changes)
  then obtain tokens d1 where t: "shlex_split (strip line) = Inr tokens"
      "AddFunctionToChangesDict tokens d = Inr d1" "parse_changes changes d1 = Inr d'"
    by (auto split: sum.splits)
  then obtain cmds where "map (\<lambda>line. shlex_split (strip line)) changes = map Inr cmds"
      "AddAll cmds d1 = Inr d'"
    using Cons.IH by blast
  then show ?case using t by (intro exI[of _ "tokens # cmds"]) simp
qed

lemma match_loop_ok:
  "shaped n c \<Longrightarrow> n \<le> length ps \<Longrightarrow> \<exists>b. match_loop n ps c = Inr b"
proof (induction n ps c rule: match_loop.induct)
  case (1 ps c)
  then show ?case by auto
next
  case (2 n c)
  then show ?case by simp
next
  case (3 n p rest c)
  then obtain items where c: "c = OrderedDict items" by (cases c) auto
  show ?case
  proof (cases "map_of items p")
    case None
    then show ?thesis using c by auto
  next
    case (Some sub)
    then have "(p, sub) \<in> set items" by (rule map_of_SomeD)
    then have "shaped n sub" using 3(2) c by (auto simp: list_all_iff)
    then show ?thesis using 3 c Some by simp
  qed
qed

lemma find_match_ok:
  assumes "root_shaped d" "lookup_NumParamsForMatch name = Inr k" "k \<le> length ps"
  shows "\<exists>b. find_match name ps k d = Inr b"
proof -
  obtain items where d: "d = OrderedDict items" using assms(1) by (cases d) (auto simp: root_shaped_def)
  show ?thesis
  proof (cases "map_of items name")
    case None
    then show ?thesis using d by (auto simp: find_match_def)
  next
    case (Some sub)
    then have "(name, sub) \<in> set items" by (rule map_of_SomeD)
    then have "shaped k sub" using assms(1,2) d by (auto simp: root_shaped_def list_all_iff)
    then show ?thesis using match_loop_ok[of k sub ps] assms(3) d Some by (simp add: find_match_def)
  qed
qed

lemma update_ok:
  assumes p: "parse_changes changes (OrderedDict []) = Inr parsed"
    and wf: "well_formed (name # ps)"
  shows "\<exists>cmds d'. map (\<lambda>line. shlex_split (strip line)) changes = map Inr cmds \<and>
           AddAll cmds (OrderedDict []) = Inr parsed \<and>
           AddFunctionToChangesDict (name # ps) parsed = Inr d' \<and>
           UpdateProfileChangesFile changes name ps = (None, map JoinParams (lines d'))"
proof -
  obtain cmds where cmds: "map (\<lambda>line. shlex_split (strip line)) changes = map Inr cmds"
      "AddAll cmds (OrderedDict []) = Inr parsed"
    using parse_changes_AddAll[OF p] by blast
  have rs: "root_shaped parsed" using AddAll_keys_ok_gen[OF cmds(2)] by simp
  obtain k where k: "lookup_NumParamsForMatch name = Inr k" and len: "k + 2 \<le> length (name # ps)"
    using wf by (cases "lookup_NumParamsForMatch name") (auto simp: well_formed_def)
  obtain b where b: "find_match name ps k parsed = Inr b"
    using find_match_ok[OF rs k, of ps] len by auto
  obtain d' where d': "AddFunctionToChangesDict (name # ps) parsed = Inr d'" "root_shaped d'"
    using add_lines[OF rs wf] by blast
  obtain items where "d' = OrderedDict items" using d'(2) by (cases d') (auto simp: root_shaped_def)
  then have "ConvertChangesDictToFunctionList d' = Inr (map JoinParams (lines d'))"
    by (simp add: ConvertChangesDictToFunctionList_def lines_def)
  then have "UpdateProfileChangesFile changes name ps = (None, map JoinParams (lines d'))"
    using p k b d'(1) by (simp add: UpdateProfileChangesFile_def)
  then show ?thesis using cmds d'(1) by blast
qed

text \<open>
  C8, as amended. Every entry of \<^verbatim>\<open>kFunctionInfoMap\<close> with \<^verbatim>\<open>ModifiesFilter\<close> has a
  \<^verbatim>\<open>NumParamsForMatch\<close> \<open>k\<close>, and the greatest of its \<^verbatim>\<open>NumParamsOptions\<close> is \<open>k + 1\<close>.
  When the branch of such a command returns, the token list that is recorded, the name
  with the parameters after the default values were appended, has exactly \<open>k + 2\<close> tokens,
  so the index of the leaf is in bounds there: \<^verbatim>\<open>UpdateProfileChangesFile\<close> raises nothing
  whenever the lines already in the change log parse. A token list read back from a line
  of the change log is as long as that line, and \<^verbatim>\<open>AddFunctionToChangesDict\<close> raises
  \<^verbatim>\<open>IndexError\<close> on a line with fewer tokens.
\<close>

theorem recorded_tokens_in_bounds:
  assumes "lookup_ModifiesFilter name = Inr True"
    and "DelegateFunctionCall_branch env name ps lf prof inp = Inr (lf', prof', out, ps')"
  shows "list_all (\<lambda>item. ModifiesFilter (snd item) \<longrightarrow>
            (\<exists>k. NumParamsForMatch (snd item) = Some k \<and>
                 Max (set (NumParamsOptions (snd item))) = k + 1)) kFunctionInfoMap \<and>
         (\<exists>k. lookup_NumParamsForMatch name = Inr k \<and> length (name # ps') = k + 2) \<and>
         (\<forall>changes parsed. parse_changes changes (OrderedDict []) = Inr parsed \<longrightarrow>
            fst (UpdateProfileChangesFile changes name ps') = None)"
proof -
  have len: "\<exists>k. lookup_NumParamsForMatch name = Inr k \<and> length (name # ps') = k + 2"
    by (rule recorded_length[OF assms])
  then have wf: "well_formed (name # ps')" by (auto simp: well_formed_def)
  have "fst (UpdateProfileChangesFile changes name ps') = None"
    if "parse_changes changes (OrderedDict []) = Inr parsed" for changes parsed
    using update_ok[OF that wf] by auto
  then show ?thesis using table_arity len by blast
qed

theorem recorded_tokens_in_bounds_counterexample:
  "shlex_split (strip ''set_currency_to_tier A'') = Inr [''set_currency_to_tier'', ''A''] \<and>
   lookup_NumParamsForMatch ''set_currency_to_tier'' = Inr 1 \<and>
   AddFunctionToChangesDict [''set_currency_to_tier'', ''A''] (OrderedDict []) = Inl IndexError \<and>
   UpdateProfileChangesFile [''set_currency_to_tier A''] ''set_hide_maps_below_tier'' [''3'']
     = (Some IndexError, [''set_currency_to_tier A''])"
  by code_simp

lemma branch_example:
  "DelegateFunctionCall_branch recording ''set_basetype_visibility'' [''Hubris Circlet'', ''1'']
     (Some []) () []
   = Inr (Some [SetBaseTypeRuleEnabledFor ''Hubris Circlet'' True False], (), [],
          [''Hubris Circlet'', ''1'', ''0''])"
  by code_simp

lemma mf_example: "lookup_ModifiesFilter ''set_basetype_visibility'' = Inr True"
  by code_simp

theorem recorded_tokens_in_bounds_witness:
  "lookup_ModifiesFilter ''set_basetype_visibility'' = Inr True \<and>
   (\<exists>k. lookup_NumParamsForMatch ''set_basetype_visibility'' = Inr k \<and>
        length [''set_basetype_visibility'', ''Hubris Circlet'', ''1'', ''0''] = k + 2) \<and>
   fst (UpdateProfileChangesFile [''set_hide_maps_below_tier 14'']
          ''set_basetype_visibility'' [''Hubris Circlet'', ''1'', ''0'']) = None"
proof -
  have p: "parse_changes [''set_hide_maps_below_tier 14''] (OrderedDict [])
           = Inr (OrderedDict [(''set_hide_maps_below_tier'', LastParam ''14'')])"
    by code_simp
  show ?thesis
    using recorded_tokens_in_bounds [OF mf_example branch_example] mf_example p by simp
qed

section \<open>Invalid parameters\<close>






















section \<open>The replay of the change log\<close>

lemma apply_changes_append:
  "apply_changes env (xs @ ys) w =
     (case apply_changes env xs w of
        (Some e, w') \<Rightarrow> (Some e, w')
      | (None, w') \<Rightarrow> apply_changes env ys w')"
proof (induction xs arbitrary: w)
  case Nil
  then show ?case by simp
next
  case (Cons line xs)
  show ?case
  proof (cases "shlex_split line")
    case (Inl e)
    then show ?thesis by simp
  next
    case (Inr tokens)
    show ?thesis
    proof (cases tokens)
      case Nil
      then show ?thesis using Inr by simp
    next
      case (Cons function_name function_params)
      obtain r w1 where d: "DelegateFunctionCall_in_batch env True function_name function_params w = (r, w1)"
        by (cases "DelegateFunctionCall_in_batch env True function_name function_params w") auto
      show ?thesis using Inr Cons d Cons.IH[of w1] by (cases r) simp_all
    qed
  qed
qed

lemma apply_changes_single:
  "apply_changes env [line] w =
     (case shlex_split line of
        Inl e \<Rightarrow> (Some e, w)
      | Inr [] \<Rightarrow> (Some ValueError, w)
      | Inr (function_name # function_params) \<Rightarrow>
          DelegateFunctionCall env True True function_name function_params w)"
proof (cases "shlex_split line")
  case (Inl e)
  then show ?thesis by simp
next
  case (Inr tokens)
  show ?thesis
  proof (cases tokens)
    case Nil
    then show ?thesis using Inr by simp
  next
    case (Cons function_name function_params)
    obtain r w1 where d: "DelegateFunctionCall_in_batch env True function_name function_params w = (r, w1)"
      by (cases "DelegateFunctionCall_in_batch env True function_name function_params w") auto
    show ?thesis using Inr Cons d by (cases r) (simp_all add: DelegateFunctionCall_def)
  qed
qed

lemma mf_import: "lookup_ModifiesFilter ''import_downloaded_filter'' = Inr False"
  by code_simp

lemma mf_load: "lookup_ModifiesFilter ''load_input_filter'' = Inr False"
  by code_simp

lemma end_no_mutator:
  "lookup_ModifiesFilter name = Inr False \<Longrightarrow> name \<noteq> ''run_batch'' \<Longrightarrow>
   DelegateFunctionCall_end False False name ps out w = (None, WriteOutput out w)"
  by (simp add: DelegateFunctionCall_end_def)

lemma import_replays:
  assumes "loot_filter w = Some lf"
  shows "DelegateFunctionCall env False False ''import_downloaded_filter'' [] w =
     (case apply_changes env (changes_file w) w of
        (Some e, w') \<Rightarrow> (Some e, w')
      | (None, w') \<Rightarrow>
          (case SaveToFile w' of
             (Some e, w2) \<Rightarrow> (Some e, w2)
           | (None, w2) \<Rightarrow> (None, WriteOutput [] w2)))"
proof -
  obtain r w1 where a: "apply_changes env (changes_file w) w = (r, w1)"
    by (cases "apply_changes env (changes_file w) w") auto
  obtain r2 w2 where s: "SaveToFile w1 = (r2, w2)" by (cases "SaveToFile w1") auto
  show ?thesis using assms a s
    by (cases r; cases r2)
      (simp_all add: DelegateFunctionCall_def import_branch_def CheckNumParams_def
        end_no_mutator[OF mf_import])
qed

lemma load_replays:
  assumes "loot_filter w = Some lf"
  shows "DelegateFunctionCall env False False ''load_input_filter'' [] w =
     (case apply_changes env (changes_file w) w of
        (Some e, w') \<Rightarrow> (Some e, w')
      | (None, w') \<Rightarrow>
          (case SaveToFile w' of
             (Some e, w2) \<Rightarrow> (Some e, w2)
           | (None, w2) \<Rightarrow> (None, WriteOutput [] w2)))"
proof -
  obtain r w1 where a: "apply_changes env (changes_file w) w = (r, w1)"
    by (cases "apply_changes env (changes_file w) w") auto
  obtain r2 w2 where s: "SaveToFile w1 = (r2, w2)" by (cases "SaveToFile w1") auto
  show ?thesis using assms a s
    by (cases r; cases r2)
      (simp_all add: DelegateFunctionCall_def import_branch_def CheckNumParams_def
        end_no_mutator[OF mf_load])
qed

lemma update_result:
  assumes "UpdateProfileChangesFile changes name ps = (None, changes')"
  shows "\<exists>cmds. map (\<lambda>line. shlex_split (strip line)) changes = map Inr cmds \<and>
           changes' = map JoinParams (compact (cmds @ [name # ps])) \<and>
           (cmd_key (name # ps) \<in> cmd_key ` set cmds \<longrightarrow>
              map butlast (compact (cmds @ [name # ps])) = map butlast (compact cmds))"
proof -
  obtain parsed d' where p: "parse_changes changes (OrderedDict []) = Inr parsed"
    and a: "AddFunctionToChangesDict (name # ps) parsed = Inr d'"
    and c: "ConvertChangesDictToFunctionList d' = Inr changes'"
    using assms by (auto simp: UpdateProfileChangesFile_def split: sum.splits)
  obtain cmds where cmds: "map (\<lambda>line. shlex_split (strip line)) changes = map Inr cmds"
      "AddAll cmds (OrderedDict []) = Inr parsed"
    using parse_changes_AddAll[OF p] by blast
  have rs: "root_shaped parsed" and ok: "keys_ok cmds (lines parsed)"
    using AddAll_keys_ok_gen[OF cmds(2)] by simp_all
  have all: "AddAll (cmds @ [name # ps]) (OrderedDict []) = Inr d'"
    using cmds(2) a by (simp add: AddAll_snoc)
  have l0: "lines parsed = compact cmds"
    using AddAll_spec[OF cmds(2)] by (simp add: lines_spec_root)
  have l1: "lines d' = compact (cmds @ [name # ps])"
    using AddAll_spec[OF all] by (simp add: lines_spec_root)
  have step: "root_shaped d'"
      "updated_lines (lines parsed) (lines d') (cmd_key (name # ps)) (cmd_value (name # ps))"
    using add_step[OF rs a] by simp_all
  obtain items where "d' = OrderedDict items" using step(1) by (cases d') (auto simp: root_shaped_def)
  then have "ConvertChangesDictToFunctionList d' = Inr (map JoinParams (lines d'))"
    by (simp add: ConvertChangesDictToFunctionList_def lines_def)
  then have 1: "changes' = map JoinParams (compact (cmds @ [name # ps]))" using c l1 by simp
  have 2: "map butlast (compact (cmds @ [name # ps])) = map butlast (compact cmds)"
    if "cmd_key (name # ps) \<in> cmd_key ` set cmds"
  proof -
    have "cmd_key (name # ps) \<in> butlast ` set (lines parsed)"
      using that ok by (simp add: keys_ok_def)
    from updated_same_keys[OF step(2) this] show ?thesis using l0 l1 by simp
  qed
  show ?thesis using cmds(1) 1 2 by blast
qed

text \<open>
  C4, as amended. The replay loop runs the lines of the change log one after the other in
  the order of the file, each by \<^verbatim>\<open>DelegateFunctionCall\<close> with \<^verbatim>\<open>in_batch\<close> and
  \<^verbatim>\<open>suppress_output\<close>, and stops at the first exception; \<^verbatim>\<open>import_downloaded_filter\<close> and
  \<^verbatim>\<open>load_input_filter\<close> are that loop over the change log followed by one save. The file
  that \<^verbatim>\<open>UpdateProfileChangesFile\<close> writes is the depth-first listing \<open>compact\<close> of the
  commands: the lines are grouped by command name and leading parameters, each level in
  the order of first insertion, which is not the order in which the keys were first
  inserted; and recording a command whose key is already there leaves the order of the
  keys as it was, so the order is never that of the most recent update.
\<close>

theorem replay_in_file_order:
  "apply_changes env (xs @ ys) w =
     (case apply_changes env xs w of
        (Some e, w') \<Rightarrow> (Some e, w')
      | (None, w') \<Rightarrow> apply_changes env ys w') \<and>
   apply_changes env [line] w =
     (case shlex_split line of
        Inl e \<Rightarrow> (Some e, w)
      | Inr [] \<Rightarrow> (Some ValueError, w)
      | Inr (function_name # function_params) \<Rightarrow>
          DelegateFunctionCall env True True function_name function_params w) \<and>
   (loot_filter w = Some lf \<longrightarrow>
      list_all (\<lambda>name. DelegateFunctionCall env False False name [] w =
                  (case apply_changes env (changes_file w) w of
                     (Some e, w') \<Rightarrow> (Some e, w')
                   | (None, w') \<Rightarrow>
                       (case SaveToFile w' of
                          (Some e, w2) \<Rightarrow> (Some e, w2)
                        | (None, w2) \<Rightarrow> (None, WriteOutput [] w2))))
        [''import_downloaded_filter'', ''load_input_filter'']) \<and>
   (UpdateProfileChangesFile changes name ps = (None, changes') \<longrightarrow>
      (\<exists>cmds. map (\<lambda>line. shlex_split (strip line)) changes = map Inr cmds \<and>
         changes' = map JoinParams (compact (cmds @ [name # ps])) \<and>
         (cmd_key (name # ps) \<in> cmd_key ` set cmds \<longrightarrow>
            map butlast (compact (cmds @ [name # ps])) = map butlast (compact cmds))))"
proof -
  have 3: "loot_filter w = Some lf \<longrightarrow>
      list_all (\<lambda>name. DelegateFunctionCall env False False name [] w =
                  (case apply_changes env (changes_file w) w of
                     (Some e, w') \<Rightarrow> (Some e, w')
                   | (None, w') \<Rightarrow>
                       (case SaveToFile w' of
                          (Some e, w2) \<Rightarrow> (Some e, w2)
                        | (None, w2) \<Rightarrow> (None, WriteOutput [] w2))))
        [''import_downloaded_filter'', ''load_input_filter'']"
    using import_replays[of w lf env] load_replays[of w lf env] by simp
  have 4: "UpdateProfileChangesFile changes name ps = (None, changes') \<longrightarrow>
      (\<exists>cmds. map (\<lambda>line. shlex_split (strip line)) changes = map Inr cmds \<and>
         changes' = map JoinParams (compact (cmds @ [name # ps])) \<and>
         (cmd_key (name # ps) \<in> cmd_key ` set cmds \<longrightarrow>
            map butlast (compact (cmds @ [name # ps])) = map butlast (compact cmds)))"
    using update_result by blast
  show ?thesis
    using apply_changes_append[of env xs ys w] apply_changes_single[of env line w] 3 4
    by (intro conjI)
qed

theorem replay_in_file_order_counterexample:
  "UpdateProfileChangesFile [] ''set_currency_to_tier'' [''A'', ''1'']
     = (None, [''set_currency_to_tier A 1'']) \<and>
   UpdateProfileChangesFile [''set_currency_to_tier A 1''] ''set_hide_maps_below_tier'' [''3'']
     = (None, [''set_currency_to_tier A 1'', ''set_hide_maps_below_tier 3'']) \<and>
   UpdateProfileChangesFile [''set_currency_to_tier A 1'', ''set_hide_maps_below_tier 3'']
       ''set_currency_to_tier'' [''B'', ''2'']
     = (None, replay_log) \<and>
   replay_log =
     [''set_currency_to_tier A 1'', ''set_currency_to_tier B 2'', ''set_hide_maps_below_tier 3''] \<and>
   saved_filters (snd (DelegateFunctionCall recording False False ''import_downloaded_filter'' []
                         (fresh\<lparr>changes_file := replay_log\<rparr>)))
     = [[SetCurrencyToTier ''A'' 1, SetCurrencyToTier ''B'' 2, SetHideMapsBelowTierTier 3]]"
  by code_simp

lemma replay_update_example:
  "UpdateProfileChangesFile [''set_hide_maps_below_tier 3'', ''set_currency_to_tier A 1'']
       ''set_hide_maps_below_tier'' [''14'']
     = (None, updated_log)"
  by code_simp

lemma replay_apply_example:
  "apply_changes recording (changes_file (fresh\<lparr>changes_file := updated_log\<rparr>))
     (fresh\<lparr>changes_file := updated_log\<rparr>)
   = (None, fresh\<lparr>changes_file := updated_log,
                   loot_filter := Some [SetHideMapsBelowTierTier 14, SetCurrencyToTier ''A'' 1]\<rparr>)"
  by code_simp

theorem replay_in_file_order_witness:
  "loot_filter (fresh\<lparr>changes_file := updated_log\<rparr>) = Some [] \<and>
   UpdateProfileChangesFile [''set_hide_maps_below_tier 3'', ''set_currency_to_tier A 1'']
       ''set_hide_maps_below_tier'' [''14''] = (None, updated_log) \<and>
   DelegateFunctionCall recording False False ''load_input_filter'' []
       (fresh\<lparr>changes_file := updated_log\<rparr>)
     = (None, fresh\<lparr>changes_file := updated_log,
                     loot_filter := Some [SetHideMapsBelowTierTier 14, SetCurrencyToTier ''A'' 1],
                     saved_filters := [[SetHideMapsBelowTierTier 14, SetCurrencyToTier ''A'' 1]],
                     output_file := []\<rparr>) \<and>
   (\<exists>cmds. map (\<lambda>line. shlex_split (strip line))
              [''set_hide_maps_below_tier 3'', ''set_currency_to_tier A 1''] = map Inr cmds \<and>
      updated_log = map JoinParams (compact (cmds @ [[''set_hide_maps_below_tier'', ''14'']])))"
proof -
  let ?w = "fresh\<lparr>changes_file := updated_log\<rparr>"
  have lf: "loot_filter ?w = Some []" by (simp add: fresh_def)
  note t = replay_in_file_order [of recording "[]" "[]" ?w "[]" "[]"
      "[''set_hide_maps_below_tier 3'', ''set_currency_to_tier A 1'']"
      "''set_hide_maps_below_tier''" "[''14'']" updated_log]
  have a: "DelegateFunctionCall recording False False ''load_input_filter'' [] ?w =
      (case apply_changes recording (changes_file ?w) ?w of
         (Some e, w') \<Rightarrow> (Some e, w')
       | (None, w') \<Rightarrow>
           (case SaveToFile w' of
              (Some e, w2) \<Rightarrow> (Some e, w2)
            | (None, w2) \<Rightarrow> (None, WriteOutput [] w2)))"
    using t lf by simp
  have b: "DelegateFunctionCall recording False False ''load_input_filter'' [] ?w
     = (None, fresh\<lparr>changes_file := updated_log,
                     loot_filter := Some [SetHideMapsBelowTierTier 14, SetCurrencyToTier ''A'' 1],
                     saved_filters := [[SetHideMapsBelowTierTier 14, SetCurrencyToTier ''A'' 1]],
                     output_file := []\<rparr>)"
    unfolding a replay_apply_example by (simp add: SaveToFile_def WriteOutput_def fresh_def)
  have c: "\<exists>cmds. map (\<lambda>line. shlex_split (strip line))
              [''set_hide_maps_below_tier 3'', ''set_currency_to_tier A 1''] = map Inr cmds \<and>
      updated_log = map JoinParams (compact (cmds @ [[''set_hide_maps_below_tier'', ''14'']]))"
    using t replay_update_example by blast
  show ?thesis using lf replay_update_example b c by (intro conjI)
qed


end
